theory Spec2Isabelle
  imports Complex_Main "HOL-Library.AList" "HOL-Library.Multiset" "HOL-Library.Sublist"
    "HOL-Library.Char_ord"
    "HOL-Library.List_Lexorder" "HOL-Library.Product_Lexorder"
begin

section \<open>Python values\<close>

text \<open>
  The exceptions that the modelled functions of \<^verbatim>\<open>diffxpy.py\<close> let escape. A raise is the
  \<open>Inl\<close> branch of a result of type \<open>error + 'a\<close>; the state reached at a raise is dropped.
\<close>

datatype error =
  KeyError | AssertionError | ValueError | NotImplementedError | IndexError | TypeError | AttributeError

text \<open>Truthiness of an optional string argument: \<^verbatim>\<open>None\<close> and \<^verbatim>\<open>""\<close> are falsy.\<close>

definition truthy :: "string option \<Rightarrow> bool" where
  "truthy s = (case s of None \<Rightarrow> False | Some v \<Rightarrow> v \<noteq> [])"

text \<open>\<^verbatim>\<open>Series.unique()\<close>: the distinct values in order of first appearance.\<close>

fun unique :: "'a list \<Rightarrow> 'a list" where
  "unique [] = []"
| "unique (x # xs) = x # unique (removeAll x xs)"

text \<open>Boolean-mask indexing: the entries whose mask bit is set.\<close>

definition select :: "bool list \<Rightarrow> 'a list \<Rightarrow> 'a list" where
  "select msk xs = map snd (filter fst (zip msk xs))"

section \<open>Data model\<close>

text \<open>
  The expression matrix, one inner list per cell and one entry per gene. The constructor
  records whether the matrix is a scipy sparse matrix (\<^verbatim>\<open>ss.issparse\<close>); numbers are
  idealised as reals.
\<close>

datatype matrix = Dense "real list list" | Sparse "real list list"

fun entries :: "matrix \<Rightarrow> real list list" where
  "entries (Dense m) = m"
| "entries (Sparse m) = m"

fun issparse :: "matrix \<Rightarrow> bool" where
  "issparse (Dense m) = False"
| "issparse (Sparse m) = True"

fun map_entries :: "(real list list \<Rightarrow> real list list) \<Rightarrow> matrix \<Rightarrow> matrix" where
  "map_entries f (Dense m) = Dense (f m)"
| "map_entries f (Sparse m) = Sparse (f m)"

text \<open>\<^verbatim>\<open>X.A if ss.issparse(X) else X\<close>\<close>

definition densify :: "matrix \<Rightarrow> matrix" where
  "densify m = Dense (entries m)"

text \<open>
  A cell of the annotation table \<^verbatim>\<open>adata.obs\<close>: a label, or a boolean (the \<^verbatim>\<open>keep\<close> column).
  Numeric annotation columns (size factors) are read by the external engine only and are kept
  in printed form.
\<close>

datatype cell = S string | B bool

fun str_cell :: "cell \<Rightarrow> string" where
  "str_cell (S s) = s"
| "str_cell (B b) = (if b then ''True'' else ''False'')"

text \<open>
  A result table (\<^verbatim>\<open>pd.DataFrame\<close>): the engine's summary has one row per gene with at least
  the columns gene, qval, log2fc, mean and coef_mle (its further columns are never read by this
  module and are left out). \<open>columns\<close> lists the label columns that \<^verbatim>\<open>getMarker\<close> has inserted
  in front of them; \<open>labels\<close> holds a row's values in those columns (\<open>None\<close> is NaN).
\<close>

record row =
  labels :: "string \<rightharpoonup> string"
  gene :: string
  qval :: real
  log2fc :: real
  mean :: real
  coef_mle :: real

record df =
  columns :: "string list"
  rows :: "row list"

text \<open>
  A value of a result mapping: the \<^verbatim>\<open>"__cat"\<close> tag string, or a reference to a DataFrame object
  of the store. A dict is an association list in insertion order; \<open>AList.update\<close> replaces the
  value of a present key in place and appends an absent one, as dict assignment does.
\<close>

datatype entry = Cat string | Frame nat

type_synonym mapping = "(string \<times> entry) list"

record adata =
  X :: matrix
  layers :: "(string \<times> matrix) list"
  obs :: "(string \<times> cell list) list"
  var :: "string list"
  uns :: "(string \<times> mapping) list"

text \<open>
  The object store: AnnData objects and DataFrame objects live at addresses, so that
  \<^verbatim>\<open>adata.copy()\<close>, \<^verbatim>\<open>df.copy()\<close> and in-place assignment are distinguishable from aliasing.
  Addresses below \<open>next_ad\<close> / \<open>next_df\<close> are allocated.
\<close>

record heap =
  ads :: "nat \<Rightarrow> adata"
  next_ad :: nat
  dfs :: "nat \<Rightarrow> df"
  next_df :: nat

definition new_df :: "df \<Rightarrow> heap \<Rightarrow> nat \<times> heap" where
  "new_df t h = (next_df h, h\<lparr>dfs := (dfs h)(next_df h := t), next_df := Suc (next_df h)\<rparr>)"

definition new_ad :: "adata \<Rightarrow> heap \<Rightarrow> nat \<times> heap" where
  "new_ad a h = (next_ad h, h\<lparr>ads := (ads h)(next_ad h := a), next_ad := Suc (next_ad h)\<rparr>)"

text \<open>\<^verbatim>\<open>adata[rows]\<close> and \<^verbatim>\<open>adata[:, cols]\<close>: subsetting of cells and of genes.\<close>

definition index_obs :: "bool list \<Rightarrow> adata \<Rightarrow> adata" where
  "index_obs msk ad =
     ad\<lparr>X := map_entries (select msk) (X ad),
        layers := map (\<lambda>(k, m). (k, map_entries (select msk) m)) (layers ad),
        obs := map (\<lambda>(k, c). (k, select msk c)) (obs ad)\<rparr>"

definition index_var :: "bool list \<Rightarrow> adata \<Rightarrow> adata" where
  "index_var msk ad =
     ad\<lparr>X := map_entries (map (select msk)) (X ad),
        layers := map (\<lambda>(k, m). (k, map_entries (map (select msk)) m)) (layers ad),
        var := select msk (var ad)\<rparr>"

text \<open>\<^verbatim>\<open>series.isin(values)\<close> on a label column.\<close>

definition isin :: "cell list \<Rightarrow> string list \<Rightarrow> bool list" where
  "isin col vals = map (\<lambda>c. c \<in> S ` set vals) col"

section \<open>External collaborators\<close>

text \<open>
  \<^verbatim>\<open>sc.pp.filter_genes(adata, min_cells=n)\<close> of scanpy: a gene is kept when at least \<open>n\<close>
  cells express it (entry \<open>> 0\<close>; on count data these are the nonzero cells).
\<close>

definition n_cells :: "real list list \<Rightarrow> nat \<Rightarrow> nat" where
  "n_cells m j = length (filter (\<lambda>r. 0 < r ! j) m)"

definition filter_genes :: "int \<Rightarrow> adata \<Rightarrow> adata" where
  "filter_genes min_cells ad =
     index_var (map (\<lambda>j. min_cells \<le> int (n_cells (entries (X ad)) j)) [0..<length (var ad)]) ad"

text \<open>
  The Wald-test engine \<^verbatim>\<open>diffxpy.api.test.wald\<close> is a parameter of every function that calls
  it. It receives the call's arguments and yields, for the gene at each position of the data,
  the statistics of that gene; \<^verbatim>\<open>test.summary()\<close> is the table of these rows, one per gene of
  the data passed in.
\<close>

record wald_call =
  data :: adata
  formula_loc :: string
  factor_loc_totest :: string
  quick_scale :: bool
  size_factors :: "string option"

record stats =
  s_qval :: real
  s_log2fc :: real
  s_mean :: real
  s_coef_mle :: real

type_synonym engine = "wald_call \<Rightarrow> nat \<Rightarrow> stats"

text \<open>
  \<^verbatim>\<open>DataFrame.sort_values("coef_mle", ascending=False)\<close> of pandas is a parameter of
  \<^verbatim>\<open>getMarker\<close>: with the default algorithm the sort is not stable, so the call does not
  determine the order of rows of equal coefficient. The sort receives the rows of a table and
  returns them reordered.
\<close>

type_synonym sorter = "row list \<Rightarrow> row list"

definition stats_row :: "string \<Rightarrow> stats \<Rightarrow> row" where
  "stats_row g st =
     \<lparr>labels = Map.empty, gene = g, qval = s_qval st, log2fc = s_log2fc st, mean = s_mean st,
      coef_mle = s_coef_mle st\<rparr>"

definition summary :: "engine \<Rightarrow> wald_call \<Rightarrow> df" where
  "summary wald c =
     \<lparr>columns = [],
      rows = map (\<lambda>j. stats_row (var (data c) ! j) (wald c j)) [0..<length (var (data c))]\<rparr>"

section \<open>Format adapter\<close>

text \<open>The \<^verbatim>\<open>otherComp\<close> argument: \<^verbatim>\<open>None\<close>, one group name, or a list of group names.\<close>

datatype comp_arg = NoComp | OneComp string | ManyComp "string list"

fun falsy_comp :: "comp_arg \<Rightarrow> bool" where
  "falsy_comp NoComp = True"
| "falsy_comp (OneComp s) = (s = [])"
| "falsy_comp (ManyComp l) = (l = [])"

fun comp_list :: "comp_arg \<Rightarrow> string list" where
  "comp_list NoComp = []"
| "comp_list (OneComp s) = [s]"
| "comp_list (ManyComp l) = l"

text \<open>The label strings of a column, for the default \<^verbatim>\<open>otherComp\<close>.\<close>

definition other_groups :: "cell list \<Rightarrow> string \<Rightarrow> string list" where
  "other_groups col testComp = filter (\<lambda>x. x \<noteq> testComp) (map str_cell (unique col))"

text \<open>\<^verbatim>\<open>np.select([adata.obs[testLabel] == testComp], ["1"], "0")\<close>\<close>

definition binary_column :: "cell list \<Rightarrow> string \<Rightarrow> cell list" where
  "binary_column col testComp = map (\<lambda>c. if c = S testComp then S ''1'' else S ''0'') col"

text \<open>Lines 43 to 47: the reference groups.\<close>

definition resolve_otherComp :: "cell list \<Rightarrow> string \<Rightarrow> comp_arg \<Rightarrow> string list" where
  "resolve_otherComp col testComp otherComp =
     comp_list (if falsy_comp otherComp then ManyComp (other_groups col testComp) else otherComp)"

text \<open>Lines 48 to 52: subsetting with the gene filter, or the \<^verbatim>\<open>keep\<close> column.\<close>

definition restrict_cells :: "adata \<Rightarrow> bool list \<Rightarrow> int \<Rightarrow> bool \<Rightarrow> adata" where
  "restrict_cells adata keep minCellCounts subs =
     (if subs then filter_genes minCellCounts (index_obs keep adata)
      else adata\<lparr>obs := AList.update ''keep'' (map B keep) (obs adata)\<rparr>)"

text \<open>Lines 53 to 55: the binary column.\<close>

definition assign_binary :: "adata \<Rightarrow> string \<Rightarrow> string \<Rightarrow> string \<Rightarrow> error + adata" where
  "assign_binary adata testLabel testComp keyAdded =
     (case map_of (obs adata) testLabel of
        None \<Rightarrow> Inl KeyError
      | Some col \<Rightarrow>
          Inr (adata\<lparr>obs := AList.update keyAdded (binary_column col testComp) (obs adata)\<rparr>))"

text \<open>
  Lines 56 to 63: the combined batch column. When the annotation table has more than one
  column named like \<^verbatim>\<open>batchLabel\<close> (the working collection of a dispatcher called with a batch
  and a size-factor column has two), \<^verbatim>\<open>adata.obs[batchLabel]\<close> is a table and not a column, and
  the assignment raises \<^verbatim>\<open>ValueError\<close>.
\<close>

definition assign_batch :: "adata \<Rightarrow> string option \<Rightarrow> string \<Rightarrow> error + adata" where
  "assign_batch adata batchLabel keyAdded =
     (if truthy batchLabel then
        (case filter (\<lambda>c. fst c = the batchLabel) (obs adata) of
           [] \<Rightarrow> Inl KeyError
         | [c] \<Rightarrow>
             (case map_of (obs adata) keyAdded of
                None \<Rightarrow> Inl KeyError
              | Some kcol \<Rightarrow>
                  Inr (adata\<lparr>obs := AList.update (the batchLabel @ ''_'' @ keyAdded)
                         (map (\<lambda>(b, k). S (str_cell b @ ''_'' @ str_cell k)) (zip (snd c) kcol))
                         (obs adata)\<rparr>))
         | c # c' # cs \<Rightarrow>
             (case map_of (obs adata) keyAdded of
                None \<Rightarrow> Inl KeyError
              | Some kcol \<Rightarrow> Inl ValueError))
      else Inr adata)"

text \<open>
  \<^verbatim>\<open>parseAdToDiffxpyFormat\<close>. With \<^verbatim>\<open>subset\<close> the argument is rebound to a view, which becomes
  an object of its own at the first assignment, so the caller's object is not touched; without
  it the function assigns to the argument's annotation table and returns the argument itself.
  In both cases the result below is the collection returned.
\<close>

definition parseAdToDiffxpyFormat ::
  "adata \<Rightarrow> string \<Rightarrow> string \<Rightarrow> comp_arg \<Rightarrow> string option \<Rightarrow> int \<Rightarrow> string \<Rightarrow> bool
     \<Rightarrow> error + adata" where
  "parseAdToDiffxpyFormat adata testLabel testComp otherComp batchLabel minCellCounts keyAdded subs =
     (case map_of (obs adata) testLabel of
        None \<Rightarrow> Inl KeyError
      | Some col \<Rightarrow>
          (case assign_binary
                  (restrict_cells adata
                     (isin col (testComp # resolve_otherComp col testComp otherComp))
                     minCellCounts subs)
                  testLabel testComp keyAdded of
             Inl e \<Rightarrow> Inl e
           | Inr adata2 \<Rightarrow> assign_batch adata2 batchLabel keyAdded))"

section \<open>Single-pair tester\<close>

definition formula :: "string \<Rightarrow> string option \<Rightarrow> bool \<Rightarrow> string" where
  "formula keyTest batchLabel constrainModel =
     (if truthy batchLabel then
        (if constrainModel then ''~ 1 + '' @ keyTest @ '' + '' @ the batchLabel @ ''_'' @ keyTest
         else ''~ 1 + '' @ keyTest @ '' + '' @ the batchLabel @ '':'' @ keyTest)
      else ''~ 1 + '' @ keyTest)"

definition testTwoSample ::
  "engine \<Rightarrow> adata \<Rightarrow> string \<Rightarrow> string option \<Rightarrow> bool \<Rightarrow> string option \<Rightarrow> bool \<Rightarrow> error + df" where
  "testTwoSample wald adata keyTest batchLabel quickScale sizeFactor constrainModel =
     (case map_of (obs adata) keyTest of
        None \<Rightarrow> Inl KeyError
      | Some col \<Rightarrow>
          if length (unique col) \<noteq> 2 then Inl AssertionError
          else Inr (summary wald
                 \<lparr>data = adata, formula_loc = formula keyTest batchLabel constrainModel,
                  factor_loc_totest = keyTest, quick_scale = quickScale,
                  size_factors = sizeFactor\<rparr>))"

section \<open>Worker of the parallel path\<close>

text \<open>
  \<^verbatim>\<open>_getDiffxpy\<close>. \<open>ls_shm\<close> stands for the shared buffer named by \<^verbatim>\<open>[shm.name, shape, dtype]\<close>:
  its content and its shape. The adapter is called without subsetting, so \<^verbatim>\<open>ad_parsed\<close> and
  \<^verbatim>\<open>adata\<close> are one object: the matrix assigned to \<^verbatim>\<open>ad_parsed.X\<close> is the one that
  \<^verbatim>\<open>adata[adata.obs['keep'], ls_keepVar]\<close> reads. The gene mask is
  \<^verbatim>\<open>mtxInShm[adata.obs['keep']].sum(0) > minCellCounts\<close>. The sums are those of the reals:
  numpy adds in the dtype of the buffer, so on a \<^verbatim>\<open>float32\<close> buffer a sum is rounded and on an
  integer buffer it wraps around, which \<open>column_sums\<close> does not follow. It agrees with numpy
  on small counts, where no addition rounds or wraps.
\<close>

definition column_sums :: "real list list \<Rightarrow> nat \<Rightarrow> real list" where
  "column_sums m ncols = map (\<lambda>j. sum_list (map (\<lambda>r. r ! j) m)) [0..<ncols]"

definition getDiffxpy ::
  "engine \<Rightarrow> adata \<Rightarrow> string \<Rightarrow> string \<Rightarrow> string option \<Rightarrow> int \<Rightarrow> bool \<Rightarrow> string option \<Rightarrow> bool
     \<Rightarrow> (real list list \<times> nat \<times> nat) option \<Rightarrow> error + df" where
  "getDiffxpy wald adata testLabel testComp batchLabel minCellCounts quickScale sizeFactor
       constrainModel ls_shm =
     (case parseAdToDiffxpyFormat adata testLabel testComp NoComp batchLabel minCellCounts
             ''temp'' False of
        Inl e \<Rightarrow> Inl e
      | Inr ad_parsed \<Rightarrow>
          (case (case ls_shm of
                   None \<Rightarrow> Inr (ad_parsed\<lparr>X := densify (X ad_parsed)\<rparr>)
                 | Some (mtxInShm, shape) \<Rightarrow>
                     (case map_of (obs ad_parsed) ''keep'' of
                        None \<Rightarrow> Inl KeyError
                      | Some kcol \<Rightarrow>
                          let keep = map (\<lambda>c. c = B True) kcol;
                              ls_keepVar = map (\<lambda>s. real_of_int minCellCounts < s)
                                             (column_sums (select keep mtxInShm) (snd shape))
                          in Inr (index_var ls_keepVar
                                    (index_obs keep (ad_parsed\<lparr>X := Dense mtxInShm\<rparr>))))) of
             Inl e \<Rightarrow> Inl e
           | Inr ad \<Rightarrow>
               testTwoSample wald ad ''temp'' batchLabel quickScale sizeFactor constrainModel))"

section \<open>Layer extraction\<close>

text \<open>
  Modelled from the spec: \<^verbatim>\<open>basic.getPartialLayersAdata\<close> (module \<^verbatim>\<open>basic\<close> of the package is not
  among the sources). Given a collection, a layer selector and a list of annotation columns to
  retain, it returns a reduced working collection: a new object holding the selected matrix
  and the listed annotation columns. A listed name that is no column of the annotation table
  (\<^verbatim>\<open>None\<close> included) and a layer that does not exist are a \<^verbatim>\<open>KeyError\<close>.
\<close>

definition getPartialLayersAdata :: "adata \<Rightarrow> string \<Rightarrow> string option list \<Rightarrow> error + adata" where
  "getPartialLayersAdata ad lay cols =
     (case (if lay = ''X'' then Some (X ad) else map_of (layers ad) lay) of
        None \<Rightarrow> Inl KeyError
      | Some m \<Rightarrow>
          if list_all (\<lambda>c. case c of None \<Rightarrow> False | Some n \<Rightarrow> map_of (obs ad) n \<noteq> None) cols
          then Inr \<lparr>X = m, layers = [],
                    obs = map (\<lambda>c. (the c, the (map_of (obs ad) (the c)))) cols,
                    var = var ad, uns = []\<rparr>
          else Inl KeyError)"

section \<open>Group dispatchers\<close>

text \<open>The keyword arguments of \<^verbatim>\<open>vsRest\<close> and \<^verbatim>\<open>pairWise\<close> (the latter has no \<^verbatim>\<open>threads\<close>).\<close>

record args =
  layer :: "string option"
  testLabel :: string
  groups :: "string list option"
  batchLabel :: "string option"
  minCellCounts :: int
  sizeFactor :: "string option"
  inputIsLog :: bool
  keyAdded :: "string option"
  quickScale :: bool
  constrainModel :: bool
  threads :: int
  copy :: bool

text \<open>\<^verbatim>\<open>if not groups: groups = list(adata.obs[testLabel].unique())\<close>\<close>

definition resolve_groups :: "adata \<Rightarrow> args \<Rightarrow> error + string list" where
  "resolve_groups ad a =
     (if groups a = None \<or> groups a = Some [] then
        (case map_of (obs ad) (testLabel a) of
           None \<Rightarrow> Inl KeyError
         | Some col \<Rightarrow> Inr (map str_cell (unique col)))
      else Inr (the (groups a)))"

text \<open>
  \<^verbatim>\<open>layer = "X" if not layer else layer\<close>, and the key of the result mapping
  (\<^verbatim>\<open>if not keyAdded: keyAdded = f"diffxpyVsRest_{testLabel}"\<close>, with \<^verbatim>\<open>diffxpyPairWise_\<close> in
  \<^verbatim>\<open>pairWise\<close>).
\<close>

definition layer_name :: "args \<Rightarrow> string" where
  "layer_name a = (if truthy (layer a) then the (layer a) else ''X'')"

definition result_key :: "string \<Rightarrow> args \<Rightarrow> string" where
  "result_key pre a = (if truthy (keyAdded a) then the (keyAdded a) else pre @ testLabel a)"

text \<open>
  \<^verbatim>\<open>adataOrg = adata.copy() if copy else adata\<close>: the address of \<^verbatim>\<open>adataOrg\<close> and the store
  after the statement.
\<close>

definition adataOrg_of :: "nat \<Rightarrow> args \<Rightarrow> heap \<Rightarrow> nat" where
  "adataOrg_of adata a h = (if copy a then fst (new_ad (ads h adata) h) else adata)"

definition copy_or_alias :: "nat \<Rightarrow> args \<Rightarrow> heap \<Rightarrow> heap" where
  "copy_or_alias adata a h = (if copy a then snd (new_ad (ads h adata) h) else h)"

text \<open>
  The annotation columns handed to the layer extraction (lines 184 to 188 and 304 to 308):
  the branch for a size-factor column appends \<^verbatim>\<open>batchLabel\<close>.
\<close>

definition ls_useCol :: "args \<Rightarrow> string option list" where
  "ls_useCol a =
     [Some (testLabel a)] @ (if truthy (batchLabel a) then [batchLabel a] else [])
       @ (if truthy (sizeFactor a) then [batchLabel a] else [])"

text \<open>
  \<^verbatim>\<open>ss.linalg.expm(X) - 1\<close> on a sparse matrix. scipy's \<^verbatim>\<open>expm\<close> is the matrix exponential: it
  raises \<^verbatim>\<open>ValueError\<close> unless the matrix is square, and returns a sparse matrix for a sparse
  argument; subtracting a nonzero scalar from a sparse matrix raises \<^verbatim>\<open>NotImplementedError\<close>.
\<close>

definition is_square :: "real list list \<Rightarrow> bool" where
  "is_square m = list_all (\<lambda>r. length r = length m) m"

definition sparse_expm_minus_1 :: "real list list \<Rightarrow> error + matrix" where
  "sparse_expm_minus_1 m = (if is_square m then Inl NotImplementedError else Inl ValueError)"

text \<open>\<^verbatim>\<open>np.exp(X) - 1\<close> on a dense matrix.\<close>

definition exp_minus_1 :: "real list list \<Rightarrow> real list list" where
  "exp_minus_1 m = map (map (\<lambda>x. exp x - 1)) m"

text \<open>\<^verbatim>\<open>adata[adata.obs[testLabel].isin(groups)].copy()\<close>\<close>

definition restrict_groups :: "adata \<Rightarrow> string \<Rightarrow> string list \<Rightarrow> error + adata" where
  "restrict_groups ad label gs =
     (case map_of (obs ad) label of
        None \<Rightarrow> Inl KeyError
      | Some col \<Rightarrow> Inr (index_obs (isin col gs) ad))"

text \<open>Lines 190 to 194 of \<^verbatim>\<open>vsRest\<close>: the working collection.\<close>

definition vsRest_working :: "adata \<Rightarrow> string \<Rightarrow> args \<Rightarrow> string list \<Rightarrow> error + adata" where
  "vsRest_working adataOrg lay a gs =
     (case getPartialLayersAdata adataOrg lay (ls_useCol a) of
        Inl e \<Rightarrow> Inl e
      | Inr ad \<Rightarrow>
          (case (if inputIsLog a then
                   (if issparse (X ad) then sparse_expm_minus_1 (entries (X ad))
                    else Inr (Dense (exp_minus_1 (entries (X ad)))))
                 else Inr (X ad)) of
             Inl e \<Rightarrow> Inl e
           | Inr m \<Rightarrow> restrict_groups (ad\<lparr>X := m\<rparr>) (testLabel a) gs))"

text \<open>Lines 310 to 314 of \<^verbatim>\<open>pairWise\<close>: the matrix is made dense first.\<close>

definition pairWise_working :: "adata \<Rightarrow> string \<Rightarrow> args \<Rightarrow> string list \<Rightarrow> error + adata" where
  "pairWise_working adataOrg lay a gs =
     (case getPartialLayersAdata adataOrg lay (ls_useCol a) of
        Inl e \<Rightarrow> Inl e
      | Inr ad \<Rightarrow>
          restrict_groups
            (ad\<lparr>X := (if inputIsLog a then Dense (exp_minus_1 (entries (X ad)))
                      else densify (X ad))\<rparr>)
            (testLabel a) gs)"

text \<open>\<^verbatim>\<open>adataOrg.uns[keyAdded] = {"__cat": ...}\<close>\<close>

definition set_uns :: "nat \<Rightarrow> string \<Rightarrow> mapping \<Rightarrow> heap \<Rightarrow> heap" where
  "set_uns org key m h =
     h\<lparr>ads := (ads h)(org := (ads h org)\<lparr>uns := AList.update key m (uns (ads h org))\<rparr>)\<rparr>"

text \<open>
  \<^verbatim>\<open>adataOrg.uns[keyAdded][k] = t\<close> for a table \<open>t\<close> that the engine has just returned: the
  table is a new object of the store.
\<close>

definition store_result :: "nat \<Rightarrow> string \<Rightarrow> string \<Rightarrow> df \<Rightarrow> heap \<Rightarrow> error + heap" where
  "store_result org key k t h =
     (case map_of (uns (ads h org)) key of
        None \<Rightarrow> Inl KeyError
      | Some m \<Rightarrow>
          Inr (set_uns org key (AList.update k (Frame (fst (new_df t h))) m) (snd (new_df t h))))"

text \<open>
  The adapter followed by the tester, as both dispatchers call them (lines 229 to 244 and
  325 to 341): the table for the split of \<open>testComp\<close> against \<open>otherComp\<close>.
\<close>

definition split_test :: "engine \<Rightarrow> adata \<Rightarrow> args \<Rightarrow> string \<Rightarrow> comp_arg \<Rightarrow> error + df" where
  "split_test wald ad a testComp otherComp =
     (case parseAdToDiffxpyFormat ad (testLabel a) testComp otherComp (batchLabel a)
             (minCellCounts a) ''temp'' True of
        Inl e \<Rightarrow> Inl e
      | Inr ad_test \<Rightarrow>
          testTwoSample wald ad_test ''temp'' (batchLabel a) (quickScale a) (sizeFactor a)
            (constrainModel a))"

text \<open>The sequential loop of \<^verbatim>\<open>vsRest\<close> (lines 228 to 246).\<close>

fun vsRest_seq ::
  "engine \<Rightarrow> adata \<Rightarrow> args \<Rightarrow> nat \<Rightarrow> string \<Rightarrow> string list \<Rightarrow> heap \<Rightarrow> error + heap" where
  "vsRest_seq wald ad a org key [] h = Inr h"
| "vsRest_seq wald ad a org key (singleGroup # gs) h =
     (case split_test wald ad a singleGroup NoComp of
        Inl e \<Rightarrow> Inl e
      | Inr test \<Rightarrow>
          (case store_result org key singleGroup test h of
             Inl e \<Rightarrow> Inl e
           | Inr h' \<Rightarrow> vsRest_seq wald ad a org key gs h'))"

text \<open>
  The parallel branch (lines 200 to 225). Every task receives its own pickled copy of the
  working collection, whose matrix has been replaced by an empty sparse placeholder, and the
  shared buffer; a task is therefore a function of its arguments, and the futures are read
  in the order of the dict of futures, whatever the order of completion. The first failed
  task in that order raises at \<^verbatim>\<open>y.result()\<close>.
\<close>

fun results_of :: "(string \<times> (error + df)) list \<Rightarrow> error + (string \<times> df) list" where
  "results_of [] = Inr []"
| "results_of ((k, r) # fs) =
     (case r of
        Inl e \<Rightarrow> Inl e
      | Inr t \<Rightarrow> (case results_of fs of Inl e \<Rightarrow> Inl e | Inr rs \<Rightarrow> Inr ((k, t) # rs)))"

fun update_results :: "nat \<Rightarrow> string \<Rightarrow> (string \<times> df) list \<Rightarrow> heap \<Rightarrow> error + heap" where
  "update_results org key [] h = Inr h"
| "update_results org key ((k, t) # rs) h =
     (case store_result org key k t h of
        Inl e \<Rightarrow> Inl e
      | Inr h' \<Rightarrow> update_results org key rs h')"

definition vsRest_par ::
  "engine \<Rightarrow> adata \<Rightarrow> args \<Rightarrow> nat \<Rightarrow> string \<Rightarrow> string list \<Rightarrow> heap \<Rightarrow> error + heap" where
  "vsRest_par wald ad a org key gs h =
     (let mtx = entries (X ad);
          shape = (length mtx, length (var ad));
          placeholder = ad\<lparr>X := Sparse (replicate (fst shape) (replicate (snd shape) 0))\<rparr>;
          futures = foldl (\<lambda>d singleGroup.
                       AList.update singleGroup
                         (getDiffxpy wald placeholder (testLabel a) singleGroup (batchLabel a)
                            (minCellCounts a) (quickScale a) (sizeFactor a) (constrainModel a)
                            (Some (mtx, shape))) d) [] gs
      in case results_of futures of
           Inl e \<Rightarrow> Inl e
         | Inr dt_diffxpyResult \<Rightarrow> update_results org key dt_diffxpyResult h)"

text \<open>
  \<^verbatim>\<open>vsRest\<close> on the collection at address \<open>adata\<close>. \<^verbatim>\<open>adata.copy()\<close> allocates a new
  collection; the frames that the copied metadata store refers to are shared rather than
  copied, which no dispatcher can tell apart, since none writes to a frame that existed before
  the call. The result is the store after the call and the value returned.
\<close>

definition vsRest :: "engine \<Rightarrow> nat \<Rightarrow> args \<Rightarrow> heap \<Rightarrow> error + (heap \<times> mapping option)" where
  "vsRest wald adata a h =
     (case resolve_groups (ads h adata) a of
        Inl e \<Rightarrow> Inl e
      | Inr gs \<Rightarrow>
          let key = result_key ''diffxpyVsRest_'' a;
              adataOrg = adataOrg_of adata a h;
              h1 = copy_or_alias adata a h
          in (case vsRest_working (ads h1 adataOrg) (layer_name a) a gs of
                Inl e \<Rightarrow> Inl e
              | Inr ad \<Rightarrow>
                  (case (if 1 < threads a
                         then vsRest_par wald ad a adataOrg key gs
                                (set_uns adataOrg key [(''__cat'', Cat ''vsRest'')] h1)
                         else vsRest_seq wald (ad\<lparr>X := densify (X ad)\<rparr>) a adataOrg key gs
                                (set_uns adataOrg key [(''__cat'', Cat ''vsRest'')] h1)) of
                     Inl e \<Rightarrow> Inl e
                   | Inr h2 \<Rightarrow>
                       if copy a then
                         (case map_of (uns (ads h2 adataOrg)) key of
                            None \<Rightarrow> Inl KeyError
                          | Some m \<Rightarrow> Inr (h2, Some m))
                       else Inr (h2, None))))"

text \<open>The key \<^verbatim>\<open>f"test_{testGroup}_bg_{backgroundGroup}"\<close>.\<close>

definition pair_key :: "string \<Rightarrow> string \<Rightarrow> string" where
  "pair_key testGroup backgroundGroup = ''test_'' @ testGroup @ ''_bg_'' @ backgroundGroup"

text \<open>The first loop of \<^verbatim>\<open>pairWise\<close> (lines 318 to 343) over \<^verbatim>\<open>product(range(n), range(n))\<close>.\<close>

fun pairWise_tests ::
  "engine \<Rightarrow> adata \<Rightarrow> args \<Rightarrow> nat \<Rightarrow> string \<Rightarrow> string list \<Rightarrow> (nat \<times> nat) list \<Rightarrow> heap
     \<Rightarrow> error + heap" where
  "pairWise_tests wald ad a org key gs [] h = Inr h"
| "pairWise_tests wald ad a org key gs ((x, y) # ps) h =
     (if x \<ge> y then pairWise_tests wald ad a org key gs ps h
      else
        (case split_test wald ad a (gs ! x) (OneComp (gs ! y)) of
           Inl e \<Rightarrow> Inl e
         | Inr test \<Rightarrow>
             (case store_result org key (pair_key (gs ! x) (gs ! y)) test h of
                Inl e \<Rightarrow> Inl e
              | Inr h' \<Rightarrow> pairWise_tests wald ad a org key gs ps h')))"

text \<open>
  The mirror step (lines 349 to 356): the entry of the mirrored key becomes a copy of the
  table computed for the swapped pair, a new object; then the \<^verbatim>\<open>log2fc\<close> column of the table
  found under the mirrored key is negated in place.
\<close>

definition neg_log2fc :: "df \<Rightarrow> df" where
  "neg_log2fc t = t\<lparr>rows := map (\<lambda>r. r\<lparr>log2fc := - log2fc r\<rparr>) (rows t)\<rparr>"

definition negate_in_place :: "nat \<Rightarrow> string \<Rightarrow> string \<Rightarrow> heap \<Rightarrow> error + heap" where
  "negate_in_place org key k h =
     (case map_of (uns (ads h org)) key of
        None \<Rightarrow> Inl KeyError
      | Some m \<Rightarrow>
          (case map_of m k of
             None \<Rightarrow> Inl KeyError
           | Some (Cat s) \<Rightarrow> Inl TypeError
           | Some (Frame r) \<Rightarrow> Inr (h\<lparr>dfs := (dfs h)(r := neg_log2fc (dfs h r))\<rparr>)))"

definition mirror_entry :: "nat \<Rightarrow> string \<Rightarrow> string \<Rightarrow> string \<Rightarrow> heap \<Rightarrow> error + heap" where
  "mirror_entry org key testGroup backgroundGroup h =
     (case map_of (uns (ads h org)) key of
        None \<Rightarrow> Inl KeyError
      | Some m \<Rightarrow>
          (case map_of m (pair_key backgroundGroup testGroup) of
             None \<Rightarrow> Inl KeyError
           | Some (Cat s) \<Rightarrow> Inl AttributeError
           | Some (Frame r) \<Rightarrow>
               negate_in_place org key (pair_key testGroup backgroundGroup)
                 (set_uns org key
                    (AList.update (pair_key testGroup backgroundGroup)
                       (Frame (fst (new_df (dfs h r) h))) m)
                    (snd (new_df (dfs h r) h)))))"

fun pairWise_mirror ::
  "nat \<Rightarrow> string \<Rightarrow> string list \<Rightarrow> (nat \<times> nat) list \<Rightarrow> heap \<Rightarrow> error + heap" where
  "pairWise_mirror org key gs [] h = Inr h"
| "pairWise_mirror org key gs ((x, y) # ps) h =
     (if x \<le> y then pairWise_mirror org key gs ps h
      else
        (case mirror_entry org key (gs ! x) (gs ! y) h of
           Inl e \<Rightarrow> Inl e
         | Inr h' \<Rightarrow> pairWise_mirror org key gs ps h'))"

definition index_pairs :: "nat \<Rightarrow> (nat \<times> nat) list" where
  "index_pairs n = List.product [0..<n] [0..<n]"

definition pairWise :: "engine \<Rightarrow> nat \<Rightarrow> args \<Rightarrow> heap \<Rightarrow> error + (heap \<times> mapping option)" where
  "pairWise wald adata a h =
     (case resolve_groups (ads h adata) a of
        Inl e \<Rightarrow> Inl e
      | Inr gs \<Rightarrow>
          let key = result_key ''diffxpyPairWise_'' a;
              adataOrg = adataOrg_of adata a h;
              h1 = copy_or_alias adata a h
          in (case pairWise_working (ads h1 adataOrg) (layer_name a) a gs of
                Inl e \<Rightarrow> Inl e
              | Inr ad \<Rightarrow>
                  (case pairWise_tests wald ad a adataOrg key gs (index_pairs (length gs))
                          (set_uns adataOrg key [(''__cat'', Cat ''pairWise'')] h1) of
                     Inl e \<Rightarrow> Inl e
                   | Inr h2 \<Rightarrow>
                       (case pairWise_mirror adataOrg key gs (index_pairs (length gs)) h2 of
                          Inl e \<Rightarrow> Inl e
                        | Inr h3 \<Rightarrow>
                            if copy a then
                              (case map_of (uns (ads h3 adataOrg)) key of
                                 None \<Rightarrow> Inl KeyError
                               | Some m \<Rightarrow> Inr (h3, Some m))
                            else Inr (h3, None)))))"

section \<open>Marker extractor\<close>

text \<open>
  \<^verbatim>\<open>__twoSample\<close>: the rows within the cutoffs, sorted by \<^verbatim>\<open>sort_values\<close>.
\<close>

definition within_cutoffs :: "real \<Rightarrow> real \<Rightarrow> real \<Rightarrow> row \<Rightarrow> bool" where
  "within_cutoffs qvalue lfc mn r = (qval r < qvalue \<and> log2fc r > lfc \<and> mean r > mn)"

definition twoSample :: "sorter \<Rightarrow> df \<Rightarrow> real \<Rightarrow> real \<Rightarrow> real \<Rightarrow> df" where
  "twoSample sort_values df_marker qvalue lfc mn =
     df_marker\<lparr>rows := sort_values (filter (within_cutoffs qvalue lfc mn) (rows df_marker))\<rparr>"

text \<open>\<^verbatim>\<open>if name not in df.columns: df.insert(loc, name, value)\<close>, on the object at \<open>r\<close>.\<close>

definition insert_col :: "nat \<Rightarrow> string \<Rightarrow> string \<Rightarrow> df \<Rightarrow> df" where
  "insert_col loc name v t =
     \<lparr>columns = take loc (columns t) @ [name] @ drop loc (columns t),
      rows = map (\<lambda>r. r\<lparr>labels := (labels r)(name \<mapsto> v)\<rparr>) (rows t)\<rparr>"

definition insert_if_absent :: "nat \<Rightarrow> nat \<Rightarrow> string \<Rightarrow> string \<Rightarrow> heap \<Rightarrow> heap" where
  "insert_if_absent r loc name v h =
     (if name \<in> set (columns (dfs h r)) then h
      else h\<lparr>dfs := (dfs h)(r := insert_col loc name v (dfs h r))\<rparr>)"

text \<open>\<^verbatim>\<open>pd.concat\<close>: no table to concatenate is a \<^verbatim>\<open>ValueError\<close>.\<close>

definition concat_df :: "df list \<Rightarrow> error + df" where
  "concat_df ts =
     (if ts = [] then Inl ValueError
      else Inr \<lparr>columns = unique (concat (map columns ts)), rows = concat (map rows ts)\<rparr>)"

text \<open>The loop of \<^verbatim>\<open>__vsRest\<close>: the store after it and \<^verbatim>\<open>ls_markerParsed\<close>.\<close>

fun vsRest_tables ::
  "sorter \<Rightarrow> mapping \<Rightarrow> real \<Rightarrow> real \<Rightarrow> real \<Rightarrow> heap \<Rightarrow> error + (heap \<times> df list)" where
  "vsRest_tables sort_values [] qvalue lfc mn h = Inr (h, [])"
| "vsRest_tables sort_values ((compName, e) # dt) qvalue lfc mn h =
     (if compName = ''__cat'' then vsRest_tables sort_values dt qvalue lfc mn h
      else
        (case e of
           Cat s \<Rightarrow> Inl AttributeError
         | Frame r \<Rightarrow>
             (case vsRest_tables sort_values dt qvalue lfc mn (insert_if_absent r 0 ''clusterName'' compName h) of
                Inl err \<Rightarrow> Inl err
              | Inr (h', ts) \<Rightarrow>
                  Inr (h', twoSample sort_values (dfs (insert_if_absent r 0 ''clusterName'' compName h) r)
                              qvalue lfc mn # ts))))"

text \<open>
  The two regular expressions of \<^verbatim>\<open>__pairWise\<close>, \<^verbatim>\<open>test_([\w\W]+)_bg\<close> and \<^verbatim>\<open>_bg_([\w\W]+)\<close>,
  read with \<^verbatim>\<open>re.findall(...)[0]\<close>: the group of the leftmost match, the group being greedy.
  \<open>greedy_before pat s\<close> is the longest non-empty prefix of \<open>s\<close> that \<open>pat\<close> follows.
\<close>

fun greedy_before :: "string \<Rightarrow> string \<Rightarrow> string option" where
  "greedy_before pat [] = None"
| "greedy_before pat (c # t) =
     (case greedy_before pat t of
        Some m \<Rightarrow> Some (c # m)
      | None \<Rightarrow> if prefix pat t then Some [c] else None)"

fun testedCluster_of :: "string \<Rightarrow> string option" where
  "testedCluster_of [] = None"
| "testedCluster_of (c # t) =
     (case (if prefix ''test_'' (c # t) then greedy_before ''_bg'' (drop 5 (c # t)) else None) of
        Some m \<Rightarrow> Some m
      | None \<Rightarrow> testedCluster_of t)"

fun bgCluster_of :: "string \<Rightarrow> string option" where
  "bgCluster_of [] = None"
| "bgCluster_of (c # t) =
     (if prefix ''_bg_'' (c # t) \<and> drop 4 (c # t) \<noteq> [] then Some (drop 4 (c # t))
      else bgCluster_of t)"

text \<open>
  The loop of \<^verbatim>\<open>__pairWise\<close> (lines 428 to 440): the store after it, \<^verbatim>\<open>ls_markerParsed\<close> and
  \<^verbatim>\<open>ls_compName\<close>. An empty \<^verbatim>\<open>findall\<close> makes \<^verbatim>\<open>[0]\<close> an \<^verbatim>\<open>IndexError\<close>.
\<close>

fun pairWise_tables ::
  "sorter \<Rightarrow> mapping \<Rightarrow> real \<Rightarrow> real \<Rightarrow> real \<Rightarrow> heap \<Rightarrow> error + (heap \<times> df list \<times> string list)" where
  "pairWise_tables sort_values [] qvalue lfc mn h = Inr (h, [], [])"
| "pairWise_tables sort_values ((compName, e) # dt) qvalue lfc mn h =
     (if compName = ''__cat'' then pairWise_tables sort_values dt qvalue lfc mn h
      else
        (case testedCluster_of compName of
           None \<Rightarrow> Inl IndexError
         | Some testedCluster \<Rightarrow>
             (case bgCluster_of compName of
                None \<Rightarrow> Inl IndexError
              | Some bgCluster \<Rightarrow>
                  (case e of
                     Cat s \<Rightarrow> Inl AttributeError
                   | Frame r \<Rightarrow>
                       (case pairWise_tables sort_values dt qvalue lfc mn
                               (insert_if_absent r 1 ''bgCluster'' bgCluster
                                  (insert_if_absent r 0 ''testedCluster'' testedCluster h)) of
                          Inl err \<Rightarrow> Inl err
                        | Inr (h', ts, ns) \<Rightarrow>
                            Inr (h',
                                 twoSample sort_values
                                   (dfs (insert_if_absent r 1 ''bgCluster'' bgCluster
                                      (insert_if_absent r 0 ''testedCluster'' testedCluster h)) r)
                                   qvalue lfc mn # ts,
                                 bgCluster # ns))))))"

text \<open>
  The grouped table: \<^verbatim>\<open>groupby(["testedCluster", "gene"])\<close> drops the rows without a tested
  cluster and orders the groups by key; \<^verbatim>\<open>agg\<close> counts the rows of a group and collects its
  columns as lists.
\<close>

record agg_row =
  m_testedCluster :: string
  m_gene :: string
  counts :: nat
  m_bgCluster :: "string option list"
  m_qval :: "real list"
  m_log2fc :: "real list"
  m_mean :: "real list"
  m_coef_mle :: "real list"

definition group_of :: "row list \<Rightarrow> string \<Rightarrow> string \<Rightarrow> row list" where
  "group_of rs t g = filter (\<lambda>r. labels r ''testedCluster'' = Some t \<and> gene r = g) rs"

definition group_keys :: "row list \<Rightarrow> (string \<times> string) list" where
  "group_keys rs =
     sort (remdups (map (\<lambda>r. (the (labels r ''testedCluster''), gene r))
                        (filter (\<lambda>r. labels r ''testedCluster'' \<noteq> None) rs)))"

definition aggregate :: "row list \<Rightarrow> agg_row list" where
  "aggregate rs =
     map (\<lambda>(t, g).
            \<lparr>m_testedCluster = t, m_gene = g, counts = length (group_of rs t g),
             m_bgCluster = map (\<lambda>r. labels r ''bgCluster'') (group_of rs t g),
             m_qval = map qval (group_of rs t g),
             m_log2fc = map log2fc (group_of rs t g),
             m_mean = map mean (group_of rs t g),
             m_coef_mle = map coef_mle (group_of rs t g)\<rparr>)
         (group_keys rs)"

text \<open>
  \<^verbatim>\<open>if detectedCounts <= 0: detectedCounts = len(set(ls_compName)) + detectedCounts\<close>
\<close>

definition resolve_counts :: "string list \<Rightarrow> int \<Rightarrow> int" where
  "resolve_counts ls_compName detectedCounts =
     (if detectedCounts \<le> 0 then int (card (set ls_compName)) + detectedCounts
      else detectedCounts)"

datatype markers = Markers df | Merged "agg_row list"

definition vsRest_markers ::
  "sorter \<Rightarrow> mapping \<Rightarrow> real \<Rightarrow> real \<Rightarrow> real \<Rightarrow> heap \<Rightarrow> error + (heap \<times> markers)" where
  "vsRest_markers sort_values dt_marker qvalue lfc mn h =
     (case vsRest_tables sort_values dt_marker qvalue lfc mn h of
        Inl e \<Rightarrow> Inl e
      | Inr (h', ls_markerParsed) \<Rightarrow>
          (case concat_df ls_markerParsed of
             Inl e \<Rightarrow> Inl e
           | Inr t \<Rightarrow> Inr (h', Markers t)))"

definition pairWise_markers ::
  "sorter \<Rightarrow> mapping \<Rightarrow> real \<Rightarrow> real \<Rightarrow> real \<Rightarrow> int \<Rightarrow> heap \<Rightarrow> error + (heap \<times> markers)" where
  "pairWise_markers sort_values dt_marker qvalue lfc mn detectedCounts h =
     (case pairWise_tables sort_values dt_marker qvalue lfc mn h of
        Inl e \<Rightarrow> Inl e
      | Inr (h', ls_markerParsed, ls_compName) \<Rightarrow>
          (case concat_df ls_markerParsed of
             Inl e \<Rightarrow> Inl e
           | Inr df_markerMerged \<Rightarrow>
               Inr (h', Merged (filter (\<lambda>g. int (counts g) \<ge> resolve_counts ls_compName detectedCounts)
                                   (aggregate (rows df_markerMerged))))))"

text \<open>
  \<^verbatim>\<open>getMarker\<close> on the collection at address \<open>adata\<close>: the dispatch on the \<^verbatim>\<open>"__cat"\<close> entry.
  A table under \<^verbatim>\<open>"__cat"\<close> is not hashable (\<^verbatim>\<open>TypeError\<close>), another tag is a \<^verbatim>\<open>KeyError\<close>.
\<close>

definition getMarker ::
  "sorter \<Rightarrow> nat \<Rightarrow> string \<Rightarrow> real \<Rightarrow> real \<Rightarrow> real \<Rightarrow> int \<Rightarrow> heap \<Rightarrow> error + (heap \<times> markers)" where
  "getMarker sort_values adata key qvalue lfc mn detectedCounts h =
     (case map_of (uns (ads h adata)) key of
        None \<Rightarrow> Inl KeyError
      | Some dt_marker \<Rightarrow>
          (case map_of dt_marker ''__cat'' of
             None \<Rightarrow> Inl KeyError
           | Some (Frame r) \<Rightarrow> Inl TypeError
           | Some (Cat cate) \<Rightarrow>
               if cate = ''vsRest'' then vsRest_markers sort_values dt_marker qvalue lfc mn h
               else if cate = ''pairWise'' then
                 pairWise_markers sort_values dt_marker qvalue lfc mn detectedCounts h
               else Inl KeyError))"

section \<open>Frame of a dispatch\<close>

text \<open>
  The frames of a mapping are fresh for a call when their addresses were allocated during the
  call, between \<open>lo\<close> and \<open>hi\<close>.
\<close>

definition fresh_frames :: "nat \<Rightarrow> nat \<Rightarrow> mapping \<Rightarrow> bool" where
  "fresh_frames lo hi m =
     list_all (\<lambda>(k, e). case e of Cat s \<Rightarrow> True | Frame f \<Rightarrow> lo \<le> f \<and> f < hi) m"

text \<open>
  What a dispatcher called on the collection at \<open>adata\<close> in store \<open>h\<close> may change, \<open>h'\<close> being
  the store after the call and \<open>r\<close> the value returned: no other collection that existed before
  and no table that existed before; with \<^verbatim>\<open>copy\<close> the collection itself is unchanged, the
  mapping is returned and is the entry of the copy; without it nothing is returned and the
  metadata store of the collection differs in the entry at the result key, which is a mapping
  of fresh frames.
\<close>

definition dispatch_frame :: "string \<Rightarrow> nat \<Rightarrow> args \<Rightarrow> heap \<Rightarrow> heap \<Rightarrow> mapping option \<Rightarrow> bool" where
  "dispatch_frame pre adata a h h' r =
     ((\<forall>p<next_ad h. p \<noteq> adata \<longrightarrow> ads h' p = ads h p) \<and>
      (\<forall>f<next_df h. dfs h' f = dfs h f) \<and>
      (\<exists>m. fresh_frames (next_df h) (next_df h') m \<and>
           (if copy a
            then r = Some m \<and> ads h' adata = ads h adata \<and>
                 ads h' (next_ad h) =
                   (ads h adata)\<lparr>uns := AList.update (result_key pre a) m (uns (ads h adata))\<rparr>
            else r = None \<and>
                 ads h' adata =
                   (ads h adata)\<lparr>uns := AList.update (result_key pre a) m (uns (ads h adata))\<rparr>)))"

text \<open>
  Two relations for the loops of the dispatchers. \<open>grows org key h h'\<close>: from \<open>h\<close> to \<open>h'\<close> only
  the entry at \<open>key\<close> of the collection at \<open>org\<close> is assigned and only new tables are written.
  \<open>building org key lo h\<close>: the entry at \<open>key\<close> is a mapping whose frames were allocated from
  \<open>lo\<close> on.
\<close>

definition grows :: "nat \<Rightarrow> string \<Rightarrow> heap \<Rightarrow> heap \<Rightarrow> bool" where
  "grows org key h h' =
     (next_ad h' = next_ad h \<and> next_df h \<le> next_df h' \<and>
      (\<forall>r<next_df h. dfs h' r = dfs h r) \<and>
      (\<exists>m. ads h' = (ads h)(org := (ads h org)\<lparr>uns := AList.update key m (uns (ads h org))\<rparr>)))"

definition building :: "nat \<Rightarrow> string \<Rightarrow> nat \<Rightarrow> heap \<Rightarrow> bool" where
  "building org key lo h =
     (lo \<le> next_df h \<and>
      (\<exists>m. map_of (uns (ads h org)) key = Some m \<and> fresh_frames lo (next_df h) m))"

section \<open>Keys of the pairwise mapping\<close>

text \<open>
  The key of the pair of groups at two positions of the group list, and the condition that
  the keys of distinct ordered pairs of different positions are distinct strings. (Group
  names such as \<^verbatim>\<open>a\<close> and \<^verbatim>\<open>a_bg_a\<close> give one key to two pairs.)
\<close>

definition index_key :: "string list \<Rightarrow> nat \<times> nat \<Rightarrow> string" where
  "index_key gs p = pair_key (gs ! fst p) (gs ! snd p)"

definition distinct_keys :: "string list \<Rightarrow> bool" where
  "distinct_keys gs =
     distinct (map (index_key gs) (filter (\<lambda>p. fst p \<noteq> snd p) (index_pairs (length gs))))"

text \<open>
  For the loops of \<^verbatim>\<open>pairWise\<close>: the entry of the mapping under construction at a key, the keys
  that the first and the second loop assign on a list of index pairs, and the condition that
  every frame of the mapping is allocated.
\<close>

definition entry_at :: "nat \<Rightarrow> string \<Rightarrow> heap \<Rightarrow> string \<Rightarrow> entry option" where
  "entry_at org key h k =
     (case map_of (uns (ads h org)) key of None \<Rightarrow> None | Some m \<Rightarrow> map_of m k)"

definition upper_keys :: "string list \<Rightarrow> (nat \<times> nat) list \<Rightarrow> string list" where
  "upper_keys gs ps = map (index_key gs) (filter (\<lambda>p. fst p < snd p) ps)"

definition lower_keys :: "string list \<Rightarrow> (nat \<times> nat) list \<Rightarrow> string list" where
  "lower_keys gs ps = map (index_key gs) (filter (\<lambda>p. snd p < fst p) ps)"

definition bounded :: "nat \<Rightarrow> string \<Rightarrow> heap \<Rightarrow> bool" where
  "bounded org key h = (\<forall>k f. entry_at org key h k = Some (Frame f) \<longrightarrow> f < next_df h)"

text \<open>
  The keys of the mapping stored under \<open>key\<close> in the metadata store of the collection at
  \<open>org\<close>, and the keys \<^verbatim>\<open>test_X_bg_Y\<close> of the ordered pairs of different positions of a group
  list.
\<close>

definition keys_at :: "nat \<Rightarrow> string \<Rightarrow> heap \<Rightarrow> string set" where
  "keys_at org key h =
     (case map_of (uns (ads h org)) key of None \<Rightarrow> {} | Some m \<Rightarrow> fst ` set m)"

definition pair_keys :: "string list \<Rightarrow> string list" where
  "pair_keys gs = map (index_key gs) (filter (\<lambda>p. fst p \<noteq> snd p) (index_pairs (length gs)))"

section \<open>Result mappings held by a collection\<close>

text \<open>
  The tables of a mapping (the frames under its keys other than \<^verbatim>\<open>"__cat"\<close>), and the keys of
  its groups in the order of the dict.
\<close>

fun frames_of :: "mapping \<Rightarrow> nat list" where
  "frames_of [] = []"
| "frames_of ((k, Cat s) # dt) = frames_of dt"
| "frames_of ((k, Frame r) # dt) = (if k = ''__cat'' then frames_of dt else r # frames_of dt)"

definition group_keys_of :: "mapping \<Rightarrow> string list" where
  "group_keys_of dt = filter (\<lambda>k. k \<noteq> ''__cat'') (map fst dt)"

text \<open>
  \<open>labelled col name h dt\<close>: every table of the mapping either lacks the label column \<open>col\<close> or
  carries in it, in every row, the name \<open>name k\<close> that \<^verbatim>\<open>getMarker\<close> derives from the key \<open>k\<close> of
  the table. A table fresh from a dispatcher lacks the column; \<^verbatim>\<open>getMarker\<close> inserts it in place
  and guards the insertion by \<^verbatim>\<open>if col not in df_marker.columns\<close>.
\<close>

fun labelled :: "string \<Rightarrow> (string \<Rightarrow> string option) \<Rightarrow> heap \<Rightarrow> mapping \<Rightarrow> bool" where
  "labelled col name h [] = True"
| "labelled col name h ((k, Cat s) # dt) = labelled col name h dt"
| "labelled col name h ((k, Frame r) # dt) =
     ((k = ''__cat'' \<or> col \<notin> set (columns (dfs h r)) \<or>
       list_all (\<lambda>rw. labels rw col = name k) (rows (dfs h r))) \<and> labelled col name h dt)"

text \<open>
  A \<^verbatim>\<open>vsRest\<close>-tagged result mapping as a collection holds it: tagged \<^verbatim>\<open>vsRest\<close>, its tables
  different objects, each as the dispatcher stored it or as an earlier \<^verbatim>\<open>getMarker\<close> left it.
\<close>

definition vsRest_result :: "heap \<Rightarrow> mapping \<Rightarrow> bool" where
  "vsRest_result h dt =
     (map_of dt ''__cat'' = Some (Cat ''vsRest'') \<and> distinct (frames_of dt) \<and>
      labelled ''clusterName'' Some h dt)"

text \<open>Rows in descending order of the coefficient, and the two properties of a block of rows.\<close>

definition descending :: "row list \<Rightarrow> bool" where
  "descending rs = sorted_wrt (\<lambda>a b. coef_mle a \<ge> coef_mle b) rs"

text \<open>
  What is taken of the sort: it returns the rows it is given, each as often as given, in
  descending order of the coefficient.
\<close>

definition sorts :: "sorter \<Rightarrow> bool" where
  "sorts sort_values = (\<forall>rs. descending (sort_values rs) \<and> mset (sort_values rs) = mset rs)"



text \<open>
  For the loops of \<^verbatim>\<open>vsRest\<close>: the mapping under construction is tagged, and its tables are
  different allocated objects without label columns.
\<close>

definition fresh_tables :: "nat \<Rightarrow> string \<Rightarrow> heap \<Rightarrow> bool" where
  "fresh_tables org key h =
     (\<exists>m. map_of (uns (ads h org)) key = Some m \<and> map_of m ''__cat'' = Some (Cat ''vsRest'') \<and>
          distinct (frames_of m) \<and>
          (\<forall>r\<in>set (frames_of m). r < next_df h \<and> columns (dfs h r) = []))"

text \<open>
  The background names of a mapping, as the loop of \<^verbatim>\<open>__pairWise\<close> collects them in
  \<^verbatim>\<open>ls_compName\<close>: the text after \<^verbatim>\<open>_bg_\<close> of every key other than \<^verbatim>\<open>"__cat"\<close>.
\<close>

definition bg_names :: "mapping \<Rightarrow> string list" where
  "bg_names dt = map (\<lambda>k. the (bgCluster_of k)) (group_keys_of dt)"

text \<open>
  \<open>clearances h dt q l m tc g\<close>: the number of rows for the gene \<open>g\<close> within the three cutoffs,
  over the tables of the mapping whose key names \<open>tc\<close> as the tested group. Each table holds
  the comparison of its tested group against one background group, so this counts the
  backgrounds against which the gene clears the cutoffs.
\<close>

fun clearances :: "heap \<Rightarrow> mapping \<Rightarrow> real \<Rightarrow> real \<Rightarrow> real \<Rightarrow> string \<Rightarrow> string \<Rightarrow> nat" where
  "clearances h [] q l m tc g = 0"
| "clearances h ((k, Cat s) # dt) q l m tc g = clearances h dt q l m tc g"
| "clearances h ((k, Frame r) # dt) q l m tc g =
     (if k \<noteq> ''__cat'' \<and> testedCluster_of k = Some tc
      then length (filter (\<lambda>rw. gene rw = g \<and> within_cutoffs q l m rw) (rows (dfs h r)))
      else 0) + clearances h dt q l m tc g"

text \<open>
  A \<^verbatim>\<open>pairWise\<close>-tagged result mapping as a collection holds it: tagged \<^verbatim>\<open>pairWise\<close>, its tables
  different objects, each as the dispatcher stored it or as an earlier \<^verbatim>\<open>getMarker\<close> left it.
\<close>

definition pairWise_result :: "heap \<Rightarrow> mapping \<Rightarrow> bool" where
  "pairWise_result h dt =
     (map_of dt ''__cat'' = Some (Cat ''pairWise'') \<and> distinct (frames_of dt) \<and>
      labelled ''testedCluster'' testedCluster_of h dt)"

text \<open>
  The row that \<^verbatim>\<open>if name not in df.columns: df.insert(loc, name, value)\<close> leaves of a row,
  \<open>present\<close> telling whether the table had the column.
\<close>

definition relabel :: "string \<Rightarrow> string \<Rightarrow> bool \<Rightarrow> row \<Rightarrow> row" where
  "relabel c v present rw = (if present then rw else rw\<lparr>labels := (labels rw)(c \<mapsto> v)\<rparr>)"

section \<open>Example collections\<close>

text \<open>Concrete inputs on which the theorems below are instantiated and evaluated.\<close>

definition empty_heap :: heap where
  "empty_heap =
     \<lparr>ads = (\<lambda>_. \<lparr>X = Dense [], layers = [], obs = [], var = [], uns = []\<rparr>), next_ad = 0,
      dfs = (\<lambda>_. \<lparr>columns = [], rows = []\<rparr>), next_df = 0\<rparr>"

text \<open>The default values of the keyword arguments, for the group-label column \<open>label\<close>.\<close>

definition default_args :: "string \<Rightarrow> args" where
  "default_args label =
     \<lparr>layer = None, testLabel = label, groups = None, batchLabel = None, minCellCounts = 5,
      sizeFactor = None, inputIsLog = False, keyAdded = None, quickScale = True,
      constrainModel = False, threads = 1, copy = False\<rparr>"

text \<open>
  A stand-in for the engine on the examples: for each gene the total count in the cells of
  class \<^verbatim>\<open>"1"\<close> minus the total count in the other cells as fold change and coefficient, the
  total count as mean, and q-value 0.
\<close>

definition class_sum :: "wald_call \<Rightarrow> nat \<Rightarrow> bool \<Rightarrow> real" where
  "class_sum c j target =
     sum_list (map (\<lambda>(k, r). r ! j)
       (filter (\<lambda>(k, r). (k = S ''1'') = target)
          (zip (the (map_of (obs (data c)) (factor_loc_totest c))) (entries (X (data c))))))"

definition toy_wald :: engine where
  "toy_wald c j =
     \<lparr>s_qval = 0, s_log2fc = class_sum c j True - class_sum c j False,
      s_mean = class_sum c j True + class_sum c j False,
      s_coef_mle = class_sum c j True - class_sum c j False\<rparr>"

text \<open>One cell of group A and one gene.\<close>

definition ad_one :: adata where
  "ad_one =
     \<lparr>X = Dense [[3]], layers = [], obs = [(''group'', [S ''A''])], var = [''g1''], uns = []\<rparr>"

text \<open>
  Two cells, of groups A and B, and two genes: g1 has 100 counts in the cell of A and none
  in the other, g2 has one count in each cell.
\<close>

definition ad_two :: adata where
  "ad_two =
     \<lparr>X = Dense [[100, 1], [0, 1]], layers = [], obs = [(''group'', [S ''A'', S ''B''])],
      var = [''g1'', ''g2''], uns = []\<rparr>"

definition heap_two :: heap where
  "heap_two = snd (new_ad ad_two empty_heap)"

definition heap_one :: heap where
  "heap_one = snd (new_ad ad_one empty_heap)"

text \<open>The two cells with a third gene, the matrix held as a scipy sparse matrix.\<close>

definition ad_sparse :: adata where
  "ad_sparse =
     \<lparr>X = Sparse [[100, 1, 0], [0, 1, 0]], layers = [], obs = [(''group'', [S ''A'', S ''B''])],
      var = [''g1'', ''g2'', ''g3''], uns = []\<rparr>"

definition heap_sparse :: heap where
  "heap_sparse = snd (new_ad ad_sparse empty_heap)"

text \<open>The two cells again, their groups named \<^verbatim>\<open>a\<close> and \<^verbatim>\<open>a_bg_a\<close>.\<close>

definition ad_clash :: adata where
  "ad_clash =
     \<lparr>X = Dense [[100, 1], [0, 1]], layers = [],
      obs = [(''group'', [S ''a'', S ''a_bg_a''])], var = [''g1'', ''g2''], uns = []\<rparr>"

definition heap_clash :: heap where
  "heap_clash = snd (new_ad ad_clash empty_heap)"

text \<open>
  A stand-in for the sort on the examples: the stable sort, which leaves rows of equal
  coefficient in table order.
\<close>

definition stable_sort :: sorter where
  "stable_sort rs = sort_key (\<lambda>r. - coef_mle r) rs"


text \<open>
  Four cells, of groups A, B, C and D, and one gene, with 4, 1, 1 and 8 counts.
\<close>

definition ad_four :: adata where
  "ad_four =
     \<lparr>X = Dense [[4], [1], [1], [8]], layers = [],
      obs = [(''group'', [S ''A'', S ''B'', S ''C'', S ''D''])], var = [''g1''], uns = []\<rparr>"

definition heap_four :: heap where
  "heap_four = snd (new_ad ad_four empty_heap)"

text \<open>The store after \<^verbatim>\<open>pairWise\<close> on the four cells, with the stand-in engine.\<close>

definition heap_pairWise :: heap where
  "heap_pairWise =
     (case pairWise toy_wald 0 ((default_args ''group'')\<lparr>minCellCounts := 1\<rparr>) heap_four of
        Inl e \<Rightarrow> empty_heap
      | Inr (h, r) \<Rightarrow> h)"

text \<open>The mapping that \<^verbatim>\<open>pairWise\<close> stores for the four cells.\<close>

definition four_groups :: mapping where
  "four_groups =
     [(''__cat'', Cat ''pairWise''),
      (''test_A_bg_B'', Frame 0), (''test_A_bg_C'', Frame 1), (''test_A_bg_D'', Frame 2),
      (''test_B_bg_C'', Frame 3), (''test_B_bg_D'', Frame 4), (''test_C_bg_D'', Frame 5),
      (''test_B_bg_A'', Frame 6), (''test_C_bg_A'', Frame 7), (''test_C_bg_B'', Frame 8),
      (''test_D_bg_A'', Frame 9), (''test_D_bg_B'', Frame 10), (''test_D_bg_C'', Frame 11)]"



section \<open>Basic facts\<close>

lemma set_unique: "set (unique xs) = set xs"
proof (induction xs rule: unique.induct)
  case 1
  show ?case by simp
next
  case (2 x xs)
  then show ?case by auto
qed

lemma distinct_unique: "distinct (unique xs)"
proof (induction xs rule: unique.induct)
  case 1
  show ?case by simp
next
  case (2 x xs)
  then show ?case by (simp add: set_unique)
qed

lemma length_unique: "length (unique xs) = card (set xs)"
  using distinct_card[OF distinct_unique, of xs] by (simp add: set_unique)





lemmas adapter_defs = parseAdToDiffxpyFormat_def assign_binary_def assign_batch_def
  restrict_cells_def resolve_otherComp_def other_groups_def isin_def binary_column_def
  filter_genes_def index_obs_def index_var_def n_cells_def select_def truthy_def

lemmas dispatch_defs = vsRest_def resolve_groups_def vsRest_working_def getPartialLayersAdata_def
  split_test_def layer_name_def result_key_def adataOrg_of_def copy_or_alias_def
  ls_useCol_def restrict_groups_def set_uns_def store_result_def new_df_def new_ad_def
  testTwoSample_def summary_def formula_def densify_def vsRest_par_def getDiffxpy_def
  column_sums_def pairWise_def pairWise_working_def index_pairs_def pair_key_def
  mirror_entry_def negate_in_place_def neg_log2fc_def

lemmas example_defs = heap_two_def heap_one_def heap_sparse_def heap_clash_def empty_heap_def
  default_args_def ad_two_def ad_one_def ad_sparse_def ad_clash_def

section \<open>The single-pair tester\<close>

text \<open>
  C6. \<^verbatim>\<open>testTwoSample\<close> raises exactly when the designated binary column does not have
  exactly two distinct values (a missing column included); the failure of the check is the
  \<^verbatim>\<open>AssertionError\<close>. With exactly two distinct values the check passes and the summary
  table of the engine, called with the formula of the arguments, is returned. The engine is a
  parameter here and taken to return.
\<close>

theorem testTwoSample_two_values:
  "((\<exists>e. testTwoSample wald ad k b q s c = Inl e) =
      (\<not> (\<exists>col. map_of (obs ad) k = Some col \<and> card (set col) = 2))) \<and>
   (map_of (obs ad) k = Some col \<longrightarrow>
      (testTwoSample wald ad k b q s c = Inl AssertionError) = (card (set col) \<noteq> 2)) \<and>
   (map_of (obs ad) k = Some col \<and> card (set col) = 2 \<longrightarrow>
      testTwoSample wald ad k b q s c =
        Inr (summary wald \<lparr>data = ad, formula_loc = formula k b c, factor_loc_totest = k,
                            quick_scale = q, size_factors = s\<rparr>))"
  by (auto simp: testTwoSample_def length_unique split: option.splits)

theorem testTwoSample_two_values_witness:
  "map_of (obs ad_two) ''group'' = Some [S ''A'', S ''B''] \<and>
   card (set [S ''A'', S ''B'']) = 2 \<and>
   testTwoSample toy_wald ad_two ''group'' None True None False =
     Inr (summary toy_wald \<lparr>data = ad_two, formula_loc = formula ''group'' None False,
                         factor_loc_totest = ''group'', quick_scale = True,
                         size_factors = None\<rparr>) \<and>
   map_of (obs ad_one) ''group'' = Some [S ''A''] \<and>
   testTwoSample toy_wald ad_one ''group'' None True None False = Inl AssertionError"
proof -
  have two: "map_of (obs ad_two) ''group'' = Some [S ''A'', S ''B'']"
    by (simp add: ad_two_def)
  have c2: "card (set [S ''A'', S ''B'']) = 2"
    by simp
  have one: "map_of (obs ad_one) ''group'' = Some [S ''A'']"
    by (simp add: ad_one_def)
  have c1: "card (set [S ''A'']) \<noteq> 2"
    by simp
  from testTwoSample_two_values[of toy_wald ad_two "''group''" None True None False "[S ''A'', S ''B'']"]
    two c2
  have r2: "testTwoSample toy_wald ad_two ''group'' None True None False =
     Inr (summary toy_wald \<lparr>data = ad_two, formula_loc = formula ''group'' None False,
                         factor_loc_totest = ''group'', quick_scale = True,
                         size_factors = None\<rparr>)"
    by blast
  from testTwoSample_two_values[of toy_wald ad_one "''group''" None True None False "[S ''A'']"]
    one c1
  have r1: "testTwoSample toy_wald ad_one ''group'' None True None False = Inl AssertionError"
    by blast
  from two c2 r2 one r1 show ?thesis by blast
qed

section \<open>The format adapter\<close>






















section \<open>The dispatchers: arguments\<close>

text \<open>
  C10, as stated, fails in its last clause: a size-factor column named like the group-label
  column is among the columns retained, whatever the batch column.
\<close>

theorem size_factor_named_as_label:
  "truthy (sizeFactor ((default_args ''group'')\<lparr>sizeFactor := Some ''group''\<rparr>)) \<and>
   sizeFactor ((default_args ''group'')\<lparr>sizeFactor := Some ''group''\<rparr>)
     \<in> set (ls_useCol ((default_args ''group'')\<lparr>sizeFactor := Some ''group''\<rparr>)) \<and>
   sizeFactor ((default_args ''group'')\<lparr>sizeFactor := Some ''group''\<rparr>)
     \<noteq> batchLabel ((default_args ''group'')\<lparr>sizeFactor := Some ''group''\<rparr>)"
  by (simp add: default_args_def ls_useCol_def truthy_def)

text \<open>
  C10, amended. When a size-factor column name is supplied, the list of annotation columns
  handed to the layer extraction, by \<^verbatim>\<open>vsRest\<close> and by \<^verbatim>\<open>pairWise\<close> alike, ends with the
  batch-column argument once more (\<^verbatim>\<open>None\<close> when no batch column is given) and not with the
  size-factor column; the size-factor column is in the list exactly when it coincides with
  the group-label column or with the batch column.
\<close>

theorem size_factor_column:
  "truthy (sizeFactor a) \<longrightarrow>
     ls_useCol a = [Some (testLabel a)] @ (if truthy (batchLabel a) then [batchLabel a] else [])
                     @ [batchLabel a] \<and>
     (sizeFactor a \<in> set (ls_useCol a)) =
        (sizeFactor a = Some (testLabel a) \<or> sizeFactor a = batchLabel a)"
  by (auto simp: ls_useCol_def truthy_def split: option.splits)

theorem size_factor_column_witness:
  "truthy (sizeFactor ((default_args ''group'')\<lparr>batchLabel := Some ''batch'', sizeFactor := Some ''sf''\<rparr>)) \<and>
   ls_useCol ((default_args ''group'')\<lparr>batchLabel := Some ''batch'', sizeFactor := Some ''sf''\<rparr>)
     = [Some ''group'', Some ''batch'', Some ''batch''] \<and>
   Some ''sf'' \<notin> set (ls_useCol ((default_args ''group'')\<lparr>batchLabel := Some ''batch'', sizeFactor := Some ''sf''\<rparr>))"
proof -
  have t: "truthy (sizeFactor ((default_args ''group'')\<lparr>batchLabel := Some ''batch'', sizeFactor := Some ''sf''\<rparr>))"
    by (simp add: default_args_def truthy_def)
  from size_factor_column[of "(default_args ''group'')\<lparr>batchLabel := Some ''batch'', sizeFactor := Some ''sf''\<rparr>"] t
  show ?thesis by (simp add: default_args_def truthy_def)
qed

lemma split_test_groups_field:
  "split_test wald ad (a\<lparr>groups := g\<rparr>) tc oc = split_test wald ad a tc oc"
  by (simp add: split_test_def cong: sum.case_cong)

lemma vsRest_seq_groups_field:
  "vsRest_seq wald ad (a\<lparr>groups := g\<rparr>) org key gs h = vsRest_seq wald ad a org key gs h"
  by (induction gs arbitrary: h) (simp_all add: split_test_groups_field split: sum.splits)

lemma vsRest_par_groups_field:
  "vsRest_par wald ad (a\<lparr>groups := g\<rparr>) org key gs h = vsRest_par wald ad a org key gs h"
  by (simp add: vsRest_par_def)

lemma pairWise_tests_groups_field:
  "pairWise_tests wald ad (a\<lparr>groups := g\<rparr>) org key gs ps h =
     pairWise_tests wald ad a org key gs ps h"
  by (induction ps arbitrary: h) (auto simp: split_test_groups_field split: sum.splits)

lemma resolve_groups_empty:
  "resolve_groups ad (a\<lparr>groups := Some []\<rparr>) = resolve_groups ad (a\<lparr>groups := None\<rparr>)"
  by (simp add: resolve_groups_def)

lemma vsRest_working_groups_field:
  "vsRest_working org lay (a\<lparr>groups := g\<rparr>) gs = vsRest_working org lay a gs"
  by (simp add: vsRest_working_def ls_useCol_def cong: sum.case_cong)

lemma pairWise_working_groups_field:
  "pairWise_working org lay (a\<lparr>groups := g\<rparr>) gs = pairWise_working org lay a gs"
  by (simp add: pairWise_working_def ls_useCol_def cong: sum.case_cong)

lemma vsRest_two_empty_groups:
  "\<exists>h m. vsRest toy_wald 0
            ((default_args ''group'')\<lparr>groups := Some [], minCellCounts := 1, copy := True\<rparr>)
            heap_two = Inr (h, Some m) \<and>
          map fst m = [''__cat'', ''A'', ''B'']"
  by (simp add: dispatch_defs adapter_defs example_defs Let_def upt_rec)

lemma vsRest_one_empty_groups:
  "vsRest toy_wald 0 ((default_args ''group'')\<lparr>groups := Some []\<rparr>) heap_one = Inl AssertionError"
  by (simp add: dispatch_defs adapter_defs example_defs Let_def upt_rec)

lemma pairWise_two_empty_groups:
  "\<exists>h m. pairWise toy_wald 0
            ((default_args ''group'')\<lparr>groups := Some [], minCellCounts := 1, copy := True\<rparr>)
            heap_two = Inr (h, Some m) \<and>
          map fst m = [''__cat'', ''test_A_bg_B'', ''test_B_bg_A'']"
  by (simp add: dispatch_defs adapter_defs example_defs Let_def upt_rec)

section \<open>The dispatchers: log input\<close>

text \<open>
  On a dense layer the working matrix of \<^verbatim>\<open>vsRest\<close> is the elementwise \<open>exp x - 1\<close> of the
  layer, restricted to the cells of the groups.
\<close>

lemma vsRest_working_dense_log:
  assumes "vsRest_working org lay a gs = Inr w" and "inputIsLog a"
  shows "\<exists>wl col. getPartialLayersAdata org lay (ls_useCol a) = Inr wl \<and>
           \<not> issparse (X wl) \<and> map_of (obs wl) (testLabel a) = Some col \<and>
           X w = Dense (select (isin col gs) (exp_minus_1 (entries (X wl))))"
  using assms
  by (auto simp: vsRest_working_def restrict_groups_def index_obs_def sparse_expm_minus_1_def
      split: sum.splits if_splits option.splits)

text \<open>
  C8 holds on dense matrices only. On the sparse example with the log-input flag set,
  \<^verbatim>\<open>vsRest\<close> raises before any test is dispatched, whatever the engine: the sparse branch
  applies the matrix exponential \<^verbatim>\<open>ss.linalg.expm\<close>, which takes square matrices only, where
  \<^verbatim>\<open>pairWise\<close> and the dense branch apply \<open>exp x - 1\<close> to every entry.
\<close>

theorem vsRest_log_sparse_raises:
  "vsRest wald 0 ((default_args ''group'')\<lparr>inputIsLog := True\<rparr>) heap_sparse = Inl ValueError"
  by (simp add: dispatch_defs example_defs truthy_def sparse_expm_minus_1_def is_square_def)

section \<open>The dispatchers: sequential and parallel path\<close>

text \<open>
  C1 fails on the example of two cells with \<^verbatim>\<open>minCellCounts = 2\<close>, whatever the engine. The
  sequential path keeps a gene expressed in at least two cells, which is g2; the worker of
  the parallel path keeps a gene whose summed counts exceed two, which is g1. The tables stored
  for group A have different genes.
\<close>

theorem vsRest_threads_differ:
  "(\<exists>h m r. vsRest wald 0
              ((default_args ''group'')\<lparr>minCellCounts := 2, copy := True, threads := 1\<rparr>)
              heap_two = Inr (h, Some m) \<and>
            map_of m ''A'' = Some (Frame r) \<and> map gene (rows (dfs h r)) = [''g2'']) \<and>
   (\<exists>h m r. vsRest wald 0
              ((default_args ''group'')\<lparr>minCellCounts := 2, copy := True, threads := 4\<rparr>)
              heap_two = Inr (h, Some m) \<and>
            map_of m ''A'' = Some (Frame r) \<and> map gene (rows (dfs h r)) = [''g1''])"
proof -
  have seq: "\<exists>h m r. vsRest wald 0
              ((default_args ''group'')\<lparr>minCellCounts := 2, copy := True, threads := 1\<rparr>)
              heap_two = Inr (h, Some m) \<and>
            map_of m ''A'' = Some (Frame r) \<and> map gene (rows (dfs h r)) = [''g2'']"
    by (simp add: dispatch_defs adapter_defs example_defs Let_def upt_rec stats_row_def)
  have par: "\<exists>h m r. vsRest wald 0
              ((default_args ''group'')\<lparr>minCellCounts := 2, copy := True, threads := 4\<rparr>)
              heap_two = Inr (h, Some m) \<and>
            map_of m ''A'' = Some (Frame r) \<and> map gene (rows (dfs h r)) = [''g1'']"
    by (simp add: dispatch_defs adapter_defs example_defs Let_def upt_rec stats_row_def)
  from seq par show ?thesis by blast
qed

section \<open>The dispatchers: effect on the store\<close>

lemma grows_refl:
  assumes "map_of (uns (ads h org)) key = Some m"
  shows "grows org key h h"
proof -
  have "ads h = (ads h)(org := (ads h org)\<lparr>uns := AList.update key m (uns (ads h org))\<rparr>)"
    using update_triv[OF assms] by simp
  then show ?thesis unfolding grows_def by blast
qed

lemma grows_trans:
  assumes "grows org key h h'" and "grows org key h' h''"
  shows "grows org key h h''"
proof -
  from assms(1) obtain m where m: "ads h' = (ads h)(org := (ads h org)\<lparr>uns := AList.update key m (uns (ads h org))\<rparr>)"
    unfolding grows_def by blast
  from assms(2) obtain m' where m': "ads h'' = (ads h')(org := (ads h' org)\<lparr>uns := AList.update key m' (uns (ads h' org))\<rparr>)"
    unfolding grows_def by blast
  have "ads h'' = (ads h)(org := (ads h org)\<lparr>uns := AList.update key m' (uns (ads h org))\<rparr>)"
    by (simp add: m m')
  moreover have "\<forall>r<next_df h. dfs h'' r = dfs h r"
    using assms unfolding grows_def by auto
  ultimately show ?thesis using assms unfolding grows_def by auto
qed

lemma grows_key:
  assumes "grows org key h h'"
  shows "\<exists>m. map_of (uns (ads h' org)) key = Some m"
proof -
  from assms obtain m where "ads h' = (ads h)(org := (ads h org)\<lparr>uns := AList.update key m (uns (ads h org))\<rparr>)"
    unfolding grows_def by blast
  then have "map_of (uns (ads h' org)) key = Some m" by (simp add: update_conv')
  then show ?thesis by blast
qed

lemma set_uns_grows: "grows org key h (set_uns org key m h)"
  unfolding grows_def set_uns_def by auto

lemma store_result_Inr:
  assumes "store_result org key k t h = Inr h'"
  shows "\<exists>m. map_of (uns (ads h org)) key = Some m \<and>
           h' = h\<lparr>ads := (ads h)(org := (ads h org)\<lparr>uns :=
                     AList.update key (AList.update k (Frame (next_df h)) m) (uns (ads h org))\<rparr>),
                  dfs := (dfs h)(next_df h := t), next_df := Suc (next_df h)\<rparr>"
  using assms by (auto simp: store_result_def set_uns_def new_df_def split: option.splits)

lemma store_result_grows:
  assumes "store_result org key k t h = Inr h'"
  shows "grows org key h h'"
  using store_result_Inr[OF assms] unfolding grows_def by auto

lemma vsRest_seq_grows:
  assumes "vsRest_seq wald ad a org key gs h = Inr h'" and "map_of (uns (ads h org)) key = Some m"
  shows "grows org key h h'"
  using assms
proof (induction gs arbitrary: h m)
  case Nil
  then show ?case by (simp add: grows_refl)
next
  case (Cons g gs)
  from Cons.prems(1) obtain t h1 where
    s: "store_result org key g t h = Inr h1" and r: "vsRest_seq wald ad a org key gs h1 = Inr h'"
    by (auto split: sum.splits)
  from store_result_grows[OF s] have g1: "grows org key h h1" .
  from grows_key[OF g1] obtain m1 where "map_of (uns (ads h1 org)) key = Some m1" by blast
  from Cons.IH[OF r this] g1 show ?case by (rule grows_trans[rotated])
qed

lemma update_results_grows:
  assumes "update_results org key rs h = Inr h'" and "map_of (uns (ads h org)) key = Some m"
  shows "grows org key h h'"
  using assms
proof (induction rs arbitrary: h m)
  case Nil
  then show ?case by (simp add: grows_refl)
next
  case (Cons kt rs)
  obtain k t where kt: "kt = (k, t)" by (cases kt)
  from Cons.prems(1) kt obtain h1 where
    s: "store_result org key k t h = Inr h1" and r: "update_results org key rs h1 = Inr h'"
    by (auto split: sum.splits)
  from store_result_grows[OF s] have g1: "grows org key h h1" .
  from grows_key[OF g1] obtain m1 where "map_of (uns (ads h1 org)) key = Some m1" by blast
  from Cons.IH[OF r this] g1 show ?case by (rule grows_trans[rotated])
qed

lemma vsRest_par_grows:
  assumes "vsRest_par wald ad a org key gs h = Inr h'" and "map_of (uns (ads h org)) key = Some m"
  shows "grows org key h h'"
  using assms by (auto simp: vsRest_par_def Let_def split: sum.splits intro: update_results_grows)

lemma pairWise_tests_grows:
  assumes "pairWise_tests wald ad a org key gs ps h = Inr h'"
    and "map_of (uns (ads h org)) key = Some m"
  shows "grows org key h h'"
  using assms
proof (induction ps arbitrary: h m)
  case Nil
  then show ?case by (simp add: grows_refl)
next
  case (Cons p ps)
  obtain x y where p: "p = (x, y)" by (cases p)
  show ?case
  proof (cases "x \<ge> y")
    case True
    with Cons p show ?thesis by simp
  next
    case False
    with Cons.prems(1) p obtain t h1 where
      s: "store_result org key (pair_key (gs ! x) (gs ! y)) t h = Inr h1"
      and r: "pairWise_tests wald ad a org key gs ps h1 = Inr h'"
      by (auto split: sum.splits)
    from store_result_grows[OF s] have g1: "grows org key h h1" .
    from grows_key[OF g1] obtain m1 where "map_of (uns (ads h1 org)) key = Some m1" by blast
    from Cons.IH[OF r this] g1 show ?thesis by (rule grows_trans[rotated])
  qed
qed

lemma mirror_entry_Inr:
  assumes "mirror_entry org key tg bg h = Inr h'"
  shows "\<exists>m r. map_of (uns (ads h org)) key = Some m \<and>
           map_of m (pair_key bg tg) = Some (Frame r) \<and>
           h' = h\<lparr>ads := (ads h)(org := (ads h org)\<lparr>uns :=
                     AList.update key (AList.update (pair_key tg bg) (Frame (next_df h)) m)
                       (uns (ads h org))\<rparr>),
                  dfs := (dfs h)(next_df h := neg_log2fc (dfs h r)),
                  next_df := Suc (next_df h)\<rparr>"
proof -
  from assms obtain m where m: "map_of (uns (ads h org)) key = Some m"
    by (auto simp: mirror_entry_def split: option.splits)
  from assms m obtain r where r: "map_of m (pair_key bg tg) = Some (Frame r)"
    by (auto simp: mirror_entry_def split: option.splits entry.splits)
  from assms m r show ?thesis
    by (auto simp add: mirror_entry_def negate_in_place_def set_uns_def new_df_def update_conv')
qed

lemma mirror_entry_grows:
  assumes "mirror_entry org key tg bg h = Inr h'"
  shows "grows org key h h'"
  using mirror_entry_Inr[OF assms] unfolding grows_def by auto

lemma pairWise_mirror_grows:
  assumes "pairWise_mirror org key gs ps h = Inr h'"
    and "map_of (uns (ads h org)) key = Some m"
  shows "grows org key h h'"
  using assms
proof (induction ps arbitrary: h m)
  case Nil
  then show ?case by (simp add: grows_refl)
next
  case (Cons p ps)
  obtain x y where p: "p = (x, y)" by (cases p)
  show ?case
  proof (cases "x \<le> y")
    case True
    with Cons p show ?thesis by simp
  next
    case False
    with Cons.prems(1) p obtain h1 where
      s: "mirror_entry org key (gs ! x) (gs ! y) h = Inr h1"
      and r: "pairWise_mirror org key gs ps h1 = Inr h'"
      by (auto split: sum.splits)
    from mirror_entry_grows[OF s] have g1: "grows org key h h1" .
    from grows_key[OF g1] obtain m1 where "map_of (uns (ads h1 org)) key = Some m1" by blast
    from Cons.IH[OF r this] g1 show ?thesis by (rule grows_trans[rotated])
  qed
qed

lemma fresh_frames_mono: "fresh_frames lo hi m \<Longrightarrow> hi \<le> hi' \<Longrightarrow> fresh_frames lo hi' m"
  unfolding fresh_frames_def
  by (induction m) (auto split: entry.splits)

lemma fresh_frames_update:
  "fresh_frames lo hi m \<Longrightarrow> lo \<le> f \<Longrightarrow> f < hi \<Longrightarrow> fresh_frames lo hi (AList.update k (Frame f) m)"
  unfolding fresh_frames_def
  by (induction m) (auto split: entry.splits)

lemma building_set_uns:
  "building org key (next_df h) (set_uns org key [(c, Cat s)] h)"
  by (simp add: building_def set_uns_def update_conv' fresh_frames_def)

lemma building_store_result:
  assumes "store_result org key k t h = Inr h'" and "building org key lo h"
  shows "building org key lo h'"
proof -
  from store_result_Inr[OF assms(1)] obtain m where
    m: "map_of (uns (ads h org)) key = Some m"
    and h': "h' = h\<lparr>ads := (ads h)(org := (ads h org)\<lparr>uns :=
                     AList.update key (AList.update k (Frame (next_df h)) m) (uns (ads h org))\<rparr>),
                  dfs := (dfs h)(next_df h := t), next_df := Suc (next_df h)\<rparr>"
    by blast
  from assms(2) m have lo: "lo \<le> next_df h" and f: "fresh_frames lo (next_df h) m"
    by (auto simp: building_def)
  from fresh_frames_update[OF fresh_frames_mono[OF f, of "Suc (next_df h)"] lo]
  have "fresh_frames lo (Suc (next_df h)) (AList.update k (Frame (next_df h)) m)" by simp
  with lo h' show ?thesis by (simp add: building_def update_conv')
qed

lemma building_mirror_entry:
  assumes "mirror_entry org key tg bg h = Inr h'" and "building org key lo h"
  shows "building org key lo h'"
proof -
  from mirror_entry_Inr[OF assms(1)] obtain m r where
    m: "map_of (uns (ads h org)) key = Some m"
    and h': "h' = h\<lparr>ads := (ads h)(org := (ads h org)\<lparr>uns :=
                     AList.update key (AList.update (pair_key tg bg) (Frame (next_df h)) m)
                       (uns (ads h org))\<rparr>),
                  dfs := (dfs h)(next_df h := neg_log2fc (dfs h r)),
                  next_df := Suc (next_df h)\<rparr>"
    by blast
  from assms(2) m have lo: "lo \<le> next_df h" and f: "fresh_frames lo (next_df h) m"
    by (auto simp: building_def)
  from fresh_frames_update[OF fresh_frames_mono[OF f, of "Suc (next_df h)"] lo]
  have "fresh_frames lo (Suc (next_df h)) (AList.update (pair_key tg bg) (Frame (next_df h)) m)"
    by simp
  with lo h' show ?thesis by (simp add: building_def update_conv')
qed

lemma building_vsRest_seq:
  assumes "vsRest_seq wald ad a org key gs h = Inr h'" and "building org key lo h"
  shows "building org key lo h'"
  using assms
  by (induction gs arbitrary: h) (auto split: sum.splits dest: building_store_result)

lemma building_update_results:
  assumes "update_results org key rs h = Inr h'" and "building org key lo h"
  shows "building org key lo h'"
  using assms
proof (induction rs arbitrary: h)
  case Nil
  then show ?case by simp
next
  case (Cons kt rs)
  obtain k t where kt: "kt = (k, t)" by (cases kt)
  from Cons.prems(1) kt obtain h1 where
    s: "store_result org key k t h = Inr h1" and r: "update_results org key rs h1 = Inr h'"
    by (auto split: sum.splits)
  from Cons.IH[OF r building_store_result[OF s Cons.prems(2)]] show ?case .
qed

lemma building_vsRest_par:
  assumes "vsRest_par wald ad a org key gs h = Inr h'" and "building org key lo h"
  shows "building org key lo h'"
  using assms by (auto simp: vsRest_par_def Let_def split: sum.splits dest: building_update_results)

lemma building_pairWise_tests:
  assumes "pairWise_tests wald ad a org key gs ps h = Inr h'" and "building org key lo h"
  shows "building org key lo h'"
  using assms
proof (induction ps arbitrary: h)
  case Nil
  then show ?case by simp
next
  case (Cons p ps)
  obtain x y where p: "p = (x, y)" by (cases p)
  show ?case
  proof (cases "x \<ge> y")
    case True
    with Cons p show ?thesis by simp
  next
    case False
    with Cons.prems(1) p obtain t h1 where
      s: "store_result org key (pair_key (gs ! x) (gs ! y)) t h = Inr h1"
      and r: "pairWise_tests wald ad a org key gs ps h1 = Inr h'"
      by (auto split: sum.splits)
    from Cons.IH[OF r building_store_result[OF s Cons.prems(2)]] show ?thesis .
  qed
qed

lemma building_pairWise_mirror:
  assumes "pairWise_mirror org key gs ps h = Inr h'" and "building org key lo h"
  shows "building org key lo h'"
  using assms
proof (induction ps arbitrary: h)
  case Nil
  then show ?case by simp
next
  case (Cons p ps)
  obtain x y where p: "p = (x, y)" by (cases p)
  show ?case
  proof (cases "x \<le> y")
    case True
    with Cons p show ?thesis by simp
  next
    case False
    with Cons.prems(1) p obtain h1 where
      s: "mirror_entry org key (gs ! x) (gs ! y) h = Inr h1"
      and r: "pairWise_mirror org key gs ps h1 = Inr h'"
      by (auto split: sum.splits)
    from Cons.IH[OF r building_mirror_entry[OF s Cons.prems(2)]] show ?thesis .
  qed
qed

lemma loops_core:
  assumes g: "grows org key h1 h2" and b: "building org key (next_df h1) h2"
  shows "\<exists>m. fresh_frames (next_df h1) (next_df h2) m \<and>
           map_of (uns (ads h2 org)) key = Some m \<and>
           ads h2 = (ads h1)(org := (ads h1 org)\<lparr>uns := AList.update key m (uns (ads h1 org))\<rparr>) \<and>
           (\<forall>f<next_df h1. dfs h2 f = dfs h1 f)"
proof -
  from g obtain m where m: "ads h2 = (ads h1)(org := (ads h1 org)\<lparr>uns := AList.update key m (uns (ads h1 org))\<rparr>)"
    and d: "\<forall>f<next_df h1. dfs h2 f = dfs h1 f"
    unfolding grows_def by blast
  from m have k: "map_of (uns (ads h2 org)) key = Some m" by (simp add: update_conv')
  with b have "fresh_frames (next_df h1) (next_df h2) m" by (auto simp: building_def)
  with m d k show ?thesis by blast
qed

lemma frame_from_core:
  assumes lt: "adata < next_ad h"
    and core: "fresh_frames (next_df h) (next_df h2) m"
      "map_of (uns (ads h2 (adataOrg_of adata a h))) (result_key pre a) = Some m"
      "ads h2 = (ads (copy_or_alias adata a h))(adataOrg_of adata a h :=
          (ads (copy_or_alias adata a h) (adataOrg_of adata a h))
            \<lparr>uns := AList.update (result_key pre a) m
                      (uns (ads (copy_or_alias adata a h) (adataOrg_of adata a h)))\<rparr>)"
      "\<forall>f<next_df h. dfs h2 f = dfs h f"
  shows "dispatch_frame pre adata a h h2 (if copy a then Some m else None)"
proof (cases "copy a")
  case True
  with core(3) lt have "ads h2 adata = ads h adata"
    and "ads h2 (next_ad h) = (ads h adata)\<lparr>uns := AList.update (result_key pre a) m (uns (ads h adata))\<rparr>"
    and "\<forall>p<next_ad h. p \<noteq> adata \<longrightarrow> ads h2 p = ads h p"
    by (simp_all add: adataOrg_of_def copy_or_alias_def new_ad_def)
  with True core(1,4) show ?thesis unfolding dispatch_frame_def by auto
next
  case False
  with core(3) have "ads h2 adata = (ads h adata)\<lparr>uns := AList.update (result_key pre a) m (uns (ads h adata))\<rparr>"
    and "\<forall>p<next_ad h. p \<noteq> adata \<longrightarrow> ads h2 p = ads h p"
    by (simp_all add: adataOrg_of_def copy_or_alias_def)
  with False core(1,4) show ?thesis unfolding dispatch_frame_def by auto
qed

lemma next_df_copy_or_alias: "next_df (copy_or_alias adata a h) = next_df h"
  by (simp add: copy_or_alias_def new_ad_def)

lemma dfs_copy_or_alias: "dfs (copy_or_alias adata a h) = dfs h"
  by (simp add: copy_or_alias_def new_ad_def)

lemma vsRest_frame:
  assumes lt: "adata < next_ad h" and run: "vsRest wald adata a h = Inr (h', r)"
  shows "dispatch_frame ''diffxpyVsRest_'' adata a h h' r"
proof -
  let ?key = "result_key ''diffxpyVsRest_'' a"
  let ?org = "adataOrg_of adata a h"
  let ?h1 = "copy_or_alias adata a h"
  let ?h1' = "set_uns ?org ?key [(''__cat'', Cat ''vsRest'')] ?h1"
  from run obtain gs w where
    loop: "(if 1 < threads a then vsRest_par wald w a ?org ?key gs ?h1'
            else vsRest_seq wald (w\<lparr>X := densify (X w)\<rparr>) a ?org ?key gs ?h1') = Inr h'"
    and res: "r = (if copy a then map_of (uns (ads h' ?org)) ?key else None)"
    unfolding vsRest_def Let_def
    by (auto split: sum.splits if_splits option.splits)
  have key1: "map_of (uns (ads ?h1' ?org)) ?key = Some [(''__cat'', Cat ''vsRest'')]"
    by (simp add: set_uns_def update_conv')
  from loop key1 have "grows ?org ?key ?h1' h'"
    by (auto split: if_splits intro: vsRest_par_grows vsRest_seq_grows)
  with set_uns_grows[of ?org ?key ?h1] have g: "grows ?org ?key ?h1 h'"
    by (rule grows_trans)
  have "building ?org ?key (next_df ?h1) ?h1'"
    by (rule building_set_uns)
  with loop have b: "building ?org ?key (next_df ?h1) h'"
    by (auto split: if_splits intro: building_vsRest_par building_vsRest_seq)
  from loops_core[OF g b] obtain m where
    c: "fresh_frames (next_df h) (next_df h') m"
      "map_of (uns (ads h' ?org)) ?key = Some m"
      "ads h' = (ads ?h1)(?org := (ads ?h1 ?org)\<lparr>uns := AList.update ?key m (uns (ads ?h1 ?org))\<rparr>)"
      "\<forall>f<next_df h. dfs h' f = dfs h f"
    by (auto simp: next_df_copy_or_alias dfs_copy_or_alias)
  from frame_from_core[OF lt c] res c(2) show ?thesis by (cases "copy a") simp_all
qed

lemma pairWise_frame:
  assumes lt: "adata < next_ad h" and run: "pairWise wald adata a h = Inr (h', r)"
  shows "dispatch_frame ''diffxpyPairWise_'' adata a h h' r"
proof -
  let ?key = "result_key ''diffxpyPairWise_'' a"
  let ?org = "adataOrg_of adata a h"
  let ?h1 = "copy_or_alias adata a h"
  let ?h1' = "set_uns ?org ?key [(''__cat'', Cat ''pairWise'')] ?h1"
  from run obtain gs w h2 where
    loop1: "pairWise_tests wald w a ?org ?key gs (index_pairs (length gs)) ?h1' = Inr h2"
    and loop2: "pairWise_mirror ?org ?key gs (index_pairs (length gs)) h2 = Inr h'"
    and res: "r = (if copy a then map_of (uns (ads h' ?org)) ?key else None)"
    unfolding pairWise_def Let_def
    by (auto split: sum.splits if_splits option.splits)
  have key1: "map_of (uns (ads ?h1' ?org)) ?key = Some [(''__cat'', Cat ''pairWise'')]"
    by (simp add: set_uns_def update_conv')
  from pairWise_tests_grows[OF loop1 key1] have g2: "grows ?org ?key ?h1' h2" .
  from grows_key[OF g2] obtain m2 where "map_of (uns (ads h2 ?org)) ?key = Some m2" by blast
  from pairWise_mirror_grows[OF loop2 this] have g3: "grows ?org ?key h2 h'" .
  from grows_trans[OF grows_trans[OF set_uns_grows g2] g3]
  have g: "grows ?org ?key ?h1 h'" .
  have "building ?org ?key (next_df ?h1) ?h1'"
    by (rule building_set_uns)
  from building_pairWise_mirror[OF loop2 building_pairWise_tests[OF loop1 this]]
  have b: "building ?org ?key (next_df ?h1) h'" .
  from loops_core[OF g b] obtain m where
    c: "fresh_frames (next_df h) (next_df h') m"
      "map_of (uns (ads h' ?org)) ?key = Some m"
      "ads h' = (ads ?h1)(?org := (ads ?h1 ?org)\<lparr>uns := AList.update ?key m (uns (ads ?h1 ?org))\<rparr>)"
      "\<forall>f<next_df h. dfs h' f = dfs h f"
    by (auto simp: next_df_copy_or_alias dfs_copy_or_alias)
  from frame_from_core[OF lt c] res c(2) show ?thesis by (cases "copy a") simp_all
qed

text \<open>
  C9. A call of \<^verbatim>\<open>vsRest\<close> or \<^verbatim>\<open>pairWise\<close> that returns, on a collection of the store: with the
  copy flag it returns the result mapping and leaves the caller's collection (matrix, annotation
  table, metadata store) as it was; without it, it returns \<^verbatim>\<open>None\<close> and the caller's collection
  differs only in its metadata store, where the entry at the result key is the mapping built by
  the call, all of whose tables are new. No other collection and no table that existed before
  the call is changed.
\<close>

theorem dispatchers_frame:
  assumes "adata < next_ad h"
  shows "(vsRest wald adata a h = Inr (h', r) \<longrightarrow>
            dispatch_frame ''diffxpyVsRest_'' adata a h h' r) \<and>
         (pairWise wald adata a h = Inr (h2, r2) \<longrightarrow>
            dispatch_frame ''diffxpyPairWise_'' adata a h h2 r2)"
  using assms vsRest_frame pairWise_frame by blast

theorem dispatchers_frame_witness:
  "0 < next_ad heap_two \<and>
   (\<exists>h' m. vsRest toy_wald 0
              ((default_args ''group'')\<lparr>groups := Some [], minCellCounts := 1, copy := True\<rparr>)
              heap_two = Inr (h', Some m) \<and>
            dispatch_frame ''diffxpyVsRest_'' 0
              ((default_args ''group'')\<lparr>groups := Some [], minCellCounts := 1, copy := True\<rparr>)
              heap_two h' (Some m)) \<and>
   (\<exists>h' m. pairWise toy_wald 0
              ((default_args ''group'')\<lparr>groups := Some [], minCellCounts := 1, copy := True\<rparr>)
              heap_two = Inr (h', Some m) \<and>
            dispatch_frame ''diffxpyPairWise_'' 0
              ((default_args ''group'')\<lparr>groups := Some [], minCellCounts := 1, copy := True\<rparr>)
              heap_two h' (Some m))"
proof -
  have lt: "0 < next_ad heap_two"
    by (simp add: heap_two_def new_ad_def)
  from vsRest_two_empty_groups obtain h1 m1 where
    v: "vsRest toy_wald 0
          ((default_args ''group'')\<lparr>groups := Some [], minCellCounts := 1, copy := True\<rparr>)
          heap_two = Inr (h1, Some m1)"
    by blast
  from pairWise_two_empty_groups obtain h2 m2 where
    p: "pairWise toy_wald 0
          ((default_args ''group'')\<lparr>groups := Some [], minCellCounts := 1, copy := True\<rparr>)
          heap_two = Inr (h2, Some m2)"
    by blast
  from dispatchers_frame[OF lt, of toy_wald
      "(default_args ''group'')\<lparr>groups := Some [], minCellCounts := 1, copy := True\<rparr>"
      h1 "Some m1" h2 "Some m2"] v p lt
  show ?thesis by blast
qed

section \<open>The pairwise dispatcher: mirrored tables\<close>

lemma store_result_entry:
  assumes "store_result org key k t h = Inr h'"
  shows "entry_at org key h' = (entry_at org key h)(k \<mapsto> Frame (next_df h))"
    and "dfs h' = (dfs h)(next_df h := t)"
    and "next_df h' = Suc (next_df h)"
  using store_result_Inr[OF assms]
  by (auto simp: entry_at_def update_conv' fun_eq_iff)

lemma mirror_entry_entry:
  assumes "mirror_entry org key tg bg h = Inr h'"
  shows "\<exists>r. entry_at org key h (pair_key bg tg) = Some (Frame r) \<and>
           entry_at org key h' = (entry_at org key h)(pair_key tg bg \<mapsto> Frame (next_df h)) \<and>
           dfs h' = (dfs h)(next_df h := neg_log2fc (dfs h r)) \<and>
           next_df h' = Suc (next_df h)"
  using mirror_entry_Inr[OF assms]
  by (auto simp: entry_at_def update_conv' fun_eq_iff)

lemma bounded_store_result:
  assumes "store_result org key k t h = Inr h'" and "bounded org key h"
  shows "bounded org key h'"
  using assms(2) store_result_entry[OF assms(1)]
  by (auto simp: bounded_def less_Suc_eq split: if_splits)

lemma bounded_pairWise_tests:
  assumes "pairWise_tests wald ad a org key gs ps h = Inr h'" and "bounded org key h"
  shows "bounded org key h'"
  using assms
proof (induction ps arbitrary: h)
  case Nil
  then show ?case by simp
next
  case (Cons p ps)
  obtain x y where p: "p = (x, y)" by (cases p)
  show ?case
  proof (cases "x \<ge> y")
    case True
    with Cons p show ?thesis by simp
  next
    case False
    with Cons.prems(1) p obtain t h1 where
      s: "store_result org key (pair_key (gs ! x) (gs ! y)) t h = Inr h1"
      and r: "pairWise_tests wald ad a org key gs ps h1 = Inr h'"
      by (auto split: sum.splits)
    from Cons.IH[OF r bounded_store_result[OF s Cons.prems(2)]] show ?thesis .
  qed
qed

lemma pairWise_tests_content:
  assumes "pairWise_tests wald ad a org key gs ps h = Inr h'"
    and "distinct (upper_keys gs ps)"
  shows "(\<forall>p\<in>set ps. fst p < snd p \<longrightarrow>
            (\<exists>f t. entry_at org key h' (index_key gs p) = Some (Frame f) \<and>
                   split_test wald ad a (gs ! fst p) (OneComp (gs ! snd p)) = Inr t \<and>
                   dfs h' f = t)) \<and>
         (\<forall>k. k \<notin> set (upper_keys gs ps) \<longrightarrow> entry_at org key h' k = entry_at org key h k) \<and>
         (\<forall>r<next_df h. dfs h' r = dfs h r) \<and> next_df h \<le> next_df h'"
  using assms
proof (induction ps arbitrary: h)
  case Nil
  then show ?case by simp
next
  case (Cons p ps)
  obtain x y where p: "p = (x, y)" by (cases p)
  show ?case
  proof (cases "x \<ge> y")
    case True
    with Cons.prems p have run: "pairWise_tests wald ad a org key gs ps h = Inr h'"
      and d: "distinct (upper_keys gs ps)" and u: "upper_keys gs (p # ps) = upper_keys gs ps"
      by (simp_all add: upper_keys_def)
    from Cons.IH[OF run d] True p u show ?thesis by auto
  next
    case False
    then have xy: "x < y" by simp
    with Cons.prems(1) p obtain t h1 where
      st: "split_test wald ad a (gs ! x) (OneComp (gs ! y)) = Inr t"
      and s: "store_result org key (index_key gs p) t h = Inr h1"
      and run: "pairWise_tests wald ad a org key gs ps h1 = Inr h'"
      by (auto simp: index_key_def split: sum.splits)
    from Cons.prems(2) p xy have notin: "index_key gs p \<notin> set (upper_keys gs ps)"
      and d: "distinct (upper_keys gs ps)"
      and u: "set (upper_keys gs (p # ps)) = insert (index_key gs p) (set (upper_keys gs ps))"
      by (simp_all add: upper_keys_def)
    note e1 = store_result_entry[OF s]
    from Cons.IH[OF run d] have
      ih1: "\<forall>q\<in>set ps. fst q < snd q \<longrightarrow>
            (\<exists>f t. entry_at org key h' (index_key gs q) = Some (Frame f) \<and>
                   split_test wald ad a (gs ! fst q) (OneComp (gs ! snd q)) = Inr t \<and>
                   dfs h' f = t)"
      and ih2: "\<forall>k. k \<notin> set (upper_keys gs ps) \<longrightarrow> entry_at org key h' k = entry_at org key h1 k"
      and ih3: "\<forall>r<next_df h1. dfs h' r = dfs h1 r"
      and ih4: "next_df h1 \<le> next_df h'"
      by blast+
    have head: "entry_at org key h' (index_key gs p) = Some (Frame (next_df h))"
      using ih2 notin e1(1) by simp
    have headt: "dfs h' (next_df h) = t"
      using ih3 e1(2,3) by simp
    have c1: "\<forall>q\<in>set (p # ps). fst q < snd q \<longrightarrow>
            (\<exists>f t. entry_at org key h' (index_key gs q) = Some (Frame f) \<and>
                   split_test wald ad a (gs ! fst q) (OneComp (gs ! snd q)) = Inr t \<and>
                   dfs h' f = t)"
      using ih1 head headt st p by auto
    have c2: "\<forall>k. k \<notin> set (upper_keys gs (p # ps)) \<longrightarrow> entry_at org key h' k = entry_at org key h k"
      using ih2 e1(1) u by simp
    have c3: "\<forall>r<next_df h. dfs h' r = dfs h r"
      using ih3 e1(2,3) by simp
    have c4: "next_df h \<le> next_df h'"
      using ih4 e1(3) by simp
    from c1 c2 c3 c4 show ?thesis by blast
  qed
qed

lemma bounded_mirror_entry:
  assumes "mirror_entry org key tg bg h = Inr h'" and "bounded org key h"
  shows "bounded org key h'"
  using assms(2) mirror_entry_entry[OF assms(1)]
  by (auto simp: bounded_def less_Suc_eq split: if_splits)

lemma pairWise_mirror_content:
  assumes "pairWise_mirror org key gs ps h = Inr h'"
    and "distinct (lower_keys gs ps)"
    and "\<forall>p\<in>set ps. \<forall>q\<in>set ps. snd p < fst p \<longrightarrow> snd q < fst q \<longrightarrow>
           index_key gs p \<noteq> index_key gs (snd q, fst q)"
    and "bounded org key h"
  shows "(\<forall>p\<in>set ps. snd p < fst p \<longrightarrow>
            (\<exists>f g. entry_at org key h (index_key gs (snd p, fst p)) = Some (Frame f) \<and>
                   entry_at org key h' (index_key gs p) = Some (Frame g) \<and>
                   dfs h' g = neg_log2fc (dfs h f) \<and> next_df h \<le> g)) \<and>
         (\<forall>k. k \<notin> set (lower_keys gs ps) \<longrightarrow> entry_at org key h' k = entry_at org key h k) \<and>
         (\<forall>r<next_df h. dfs h' r = dfs h r) \<and> next_df h \<le> next_df h'"
  using assms
proof (induction ps arbitrary: h)
  case Nil
  then show ?case by simp
next
  case (Cons p ps)
  obtain x y where p: "p = (x, y)" by (cases p)
  from Cons.prems(3) have cross: "\<forall>p\<in>set ps. \<forall>q\<in>set ps. snd p < fst p \<longrightarrow> snd q < fst q \<longrightarrow>
           index_key gs p \<noteq> index_key gs (snd q, fst q)"
    by simp
  show ?case
  proof (cases "x \<le> y")
    case True
    with Cons.prems p have run: "pairWise_mirror org key gs ps h = Inr h'"
      and d: "distinct (lower_keys gs ps)" and u: "lower_keys gs (p # ps) = lower_keys gs ps"
      by (simp_all add: lower_keys_def)
    from Cons.IH[OF run d cross Cons.prems(4)] True p u show ?thesis by auto
  next
    case False
    then have yx: "y < x" by simp
    with Cons.prems(1) p obtain h1 where
      s: "mirror_entry org key (gs ! x) (gs ! y) h = Inr h1"
      and run: "pairWise_mirror org key gs ps h1 = Inr h'"
      by (auto split: sum.splits)
    from Cons.prems(2) p yx have notin: "index_key gs p \<notin> set (lower_keys gs ps)"
      and d: "distinct (lower_keys gs ps)"
      and u: "set (lower_keys gs (p # ps)) = insert (index_key gs p) (set (lower_keys gs ps))"
      by (simp_all add: lower_keys_def)
    from mirror_entry_entry[OF s] p obtain r where
      src: "entry_at org key h (index_key gs (y, x)) = Some (Frame r)"
      and e1: "entry_at org key h1 = (entry_at org key h)(index_key gs p \<mapsto> Frame (next_df h))"
      and e2: "dfs h1 = (dfs h)(next_df h := neg_log2fc (dfs h r))"
      and e3: "next_df h1 = Suc (next_df h)"
      by (auto simp: index_key_def)
    from Cons.IH[OF run d cross bounded_mirror_entry[OF s Cons.prems(4)]] have
      ih1: "\<forall>q\<in>set ps. snd q < fst q \<longrightarrow>
            (\<exists>f g. entry_at org key h1 (index_key gs (snd q, fst q)) = Some (Frame f) \<and>
                   entry_at org key h' (index_key gs q) = Some (Frame g) \<and>
                   dfs h' g = neg_log2fc (dfs h1 f) \<and> next_df h1 \<le> g)"
      and ih2: "\<forall>k. k \<notin> set (lower_keys gs ps) \<longrightarrow> entry_at org key h' k = entry_at org key h1 k"
      and ih3: "\<forall>r<next_df h1. dfs h' r = dfs h1 r"
      and ih4: "next_df h1 \<le> next_df h'"
      by blast+
    have head: "entry_at org key h' (index_key gs p) = Some (Frame (next_df h))"
      using ih2 notin e1 by simp
    have headt: "dfs h' (next_df h) = neg_log2fc (dfs h r)"
      using ih3 e2 e3 by simp
    have hp: "\<exists>f g. entry_at org key h (index_key gs (snd p, fst p)) = Some (Frame f) \<and>
                   entry_at org key h' (index_key gs p) = Some (Frame g) \<and>
                   dfs h' g = neg_log2fc (dfs h f) \<and> next_df h \<le> g"
      using src head headt p by auto
    have tl: "\<exists>f g. entry_at org key h (index_key gs (snd q, fst q)) = Some (Frame f) \<and>
                   entry_at org key h' (index_key gs q) = Some (Frame g) \<and>
                   dfs h' g = neg_log2fc (dfs h f) \<and> next_df h \<le> g"
      if q: "q \<in> set ps" "snd q < fst q" for q
    proof -
      from ih1 q obtain f g where
        a: "entry_at org key h1 (index_key gs (snd q, fst q)) = Some (Frame f)"
        and b: "entry_at org key h' (index_key gs q) = Some (Frame g)"
        and c: "dfs h' g = neg_log2fc (dfs h1 f)" and dd: "next_df h1 \<le> g"
        by blast
      from Cons.prems(3) q p yx have "index_key gs p \<noteq> index_key gs (snd q, fst q)"
        by auto
      with a e1 have a': "entry_at org key h (index_key gs (snd q, fst q)) = Some (Frame f)"
        by (simp split: if_splits)
      with Cons.prems(4) have "f < next_df h" by (auto simp: bounded_def)
      with e2 have "dfs h1 f = dfs h f" by simp
      with a' b c dd e3 show ?thesis by auto
    qed
    have c1: "\<forall>q\<in>set (p # ps). snd q < fst q \<longrightarrow>
            (\<exists>f g. entry_at org key h (index_key gs (snd q, fst q)) = Some (Frame f) \<and>
                   entry_at org key h' (index_key gs q) = Some (Frame g) \<and>
                   dfs h' g = neg_log2fc (dfs h f) \<and> next_df h \<le> g)"
      using hp tl by auto
    have c2: "\<forall>k. k \<notin> set (lower_keys gs (p # ps)) \<longrightarrow> entry_at org key h' k = entry_at org key h k"
      using ih2 e1 u by simp
    have c3: "\<forall>r<next_df h. dfs h' r = dfs h r"
      using ih3 e2 e3 by simp
    have c4: "next_df h \<le> next_df h'"
      using ih4 e3 by simp
    from c1 c2 c3 c4 show ?thesis by blast
  qed
qed

lemma set_index_pairs: "set (index_pairs n) = {p. fst p < n \<and> snd p < n}"
  by (auto simp: index_pairs_def)

lemma upper_keys_sub:
  "upper_keys gs ps = map (index_key gs) (filter (\<lambda>p. fst p < snd p) (filter (\<lambda>p. fst p \<noteq> snd p) ps))"
proof -
  have "(\<lambda>p::nat \<times> nat. fst p \<noteq> snd p \<and> fst p < snd p) = (\<lambda>p. fst p < snd p)" by auto
  then show ?thesis by (simp add: upper_keys_def)
qed

lemma lower_keys_sub:
  "lower_keys gs ps = map (index_key gs) (filter (\<lambda>p. snd p < fst p) (filter (\<lambda>p. fst p \<noteq> snd p) ps))"
proof -
  have "(\<lambda>p::nat \<times> nat. fst p \<noteq> snd p \<and> snd p < fst p) = (\<lambda>p. snd p < fst p)" by auto
  then show ?thesis by (simp add: lower_keys_def)
qed

lemma distinct_keys_upper:
  assumes "distinct_keys gs"
  shows "distinct (upper_keys gs (index_pairs (length gs)))"
  using assms unfolding distinct_keys_def upper_keys_sub by (rule distinct_map_filter)

lemma distinct_keys_lower:
  assumes "distinct_keys gs"
  shows "distinct (lower_keys gs (index_pairs (length gs)))"
  using assms unfolding distinct_keys_def lower_keys_sub by (rule distinct_map_filter)

lemma distinct_keys_neq:
  assumes "distinct_keys gs"
    and "fst p < length gs" "snd p < length gs" "fst p \<noteq> snd p"
    and "fst q < length gs" "snd q < length gs" "fst q \<noteq> snd q"
    and "p \<noteq> q"
  shows "index_key gs p \<noteq> index_key gs q"
proof -
  let ?D = "filter (\<lambda>p. fst p \<noteq> snd p) (index_pairs (length gs))"
  from assms(1) have inj: "inj_on (index_key gs) (set ?D)"
    by (simp add: distinct_keys_def distinct_map)
  from assms(2-7) have "p \<in> set ?D" "q \<in> set ?D"
    by (simp_all add: set_index_pairs)
  with inj assms(8) show ?thesis by (auto dest: inj_onD)
qed

lemma bounded_set_uns_cat: "bounded org key (set_uns org key [(c, Cat s)] h)"
  by (simp add: bounded_def entry_at_def set_uns_def update_conv')

lemma ads_copy_or_alias: "ads (copy_or_alias adata a h) (adataOrg_of adata a h) = ads h adata"
  by (simp add: copy_or_alias_def adataOrg_of_def new_ad_def)

lemma neg_log2fc_columns:
  "map log2fc (rows (neg_log2fc t)) = map uminus (map log2fc (rows t))"
  "map qval (rows (neg_log2fc t)) = map qval (rows t)"
  "map mean (rows (neg_log2fc t)) = map mean (rows t)"
  "map coef_mle (rows (neg_log2fc t)) = map coef_mle (rows t)"
  "map gene (rows (neg_log2fc t)) = map gene (rows t)"
  by (simp_all add: neg_log2fc_def comp_def)

lemma pairWise_mirrored_core:
  assumes run: "pairWise wald adata a h = Inr (h', r)"
    and gs: "resolve_groups (ads h adata) a = Inr gs"
    and dk: "distinct_keys gs"
    and ij: "i < j" "j < length gs"
  shows "\<exists>m w t f g.
           map_of (uns (ads h' (adataOrg_of adata a h))) (result_key ''diffxpyPairWise_'' a) = Some m \<and>
           pairWise_working (ads h adata) (layer_name a) a gs = Inr w \<and>
           split_test wald w a (gs ! i) (OneComp (gs ! j)) = Inr t \<and>
           map_of m (pair_key (gs ! i) (gs ! j)) = Some (Frame f) \<and>
           map_of m (pair_key (gs ! j) (gs ! i)) = Some (Frame g) \<and>
           f \<noteq> g \<and> dfs h' f = t \<and> dfs h' g = neg_log2fc t"
proof -
  let ?key = "result_key ''diffxpyPairWise_'' a"
  let ?org = "adataOrg_of adata a h"
  let ?h1 = "copy_or_alias adata a h"
  let ?h1' = "set_uns ?org ?key [(''__cat'', Cat ''pairWise'')] ?h1"
  let ?ps = "index_pairs (length gs)"
  from run gs obtain w h2 where
    w: "pairWise_working (ads h adata) (layer_name a) a gs = Inr w"
    and loop1: "pairWise_tests wald w a ?org ?key gs ?ps ?h1' = Inr h2"
    and loop2: "pairWise_mirror ?org ?key gs ?ps h2 = Inr h'"
    unfolding pairWise_def Let_def
    by (auto simp: ads_copy_or_alias split: sum.splits if_splits option.splits)
  have b2: "bounded ?org ?key h2"
    by (rule bounded_pairWise_tests[OF loop1 bounded_set_uns_cat])
  have up: "(i, j) \<in> set ?ps" and lo: "(j, i) \<in> set ?ps"
    using ij by (simp_all add: set_index_pairs)
  from pairWise_tests_content[OF loop1 distinct_keys_upper[OF dk]] up ij(1)
  obtain f t where
    ef: "entry_at ?org ?key h2 (index_key gs (i, j)) = Some (Frame f)"
    and st: "split_test wald w a (gs ! i) (OneComp (gs ! j)) = Inr t"
    and tf: "dfs h2 f = t"
    by fastforce
  from b2 ef have fb: "f < next_df h2" by (auto simp: bounded_def)
  have cross: "\<forall>p\<in>set ?ps. \<forall>q\<in>set ?ps. snd p < fst p \<longrightarrow> snd q < fst q \<longrightarrow>
           index_key gs p \<noteq> index_key gs (snd q, fst q)"
  proof (intro ballI impI)
    fix p q
    assume "p \<in> set ?ps" "q \<in> set ?ps" "snd p < fst p" "snd q < fst q"
    then show "index_key gs p \<noteq> index_key gs (snd q, fst q)"
      by (intro distinct_keys_neq[OF dk]) (auto simp: set_index_pairs)
  qed
  note mc = pairWise_mirror_content[OF loop2 distinct_keys_lower[OF dk] cross b2]
  from mc lo ij(1) obtain f' g where
    ef': "entry_at ?org ?key h2 (index_key gs (i, j)) = Some (Frame f')"
    and eg: "entry_at ?org ?key h' (index_key gs (j, i)) = Some (Frame g)"
    and tg: "dfs h' g = neg_log2fc (dfs h2 f')" and gb: "next_df h2 \<le> g"
    by fastforce
  from ef ef' have ff: "f' = f" by simp
  have "index_key gs (i, j) \<notin> set (lower_keys gs ?ps)"
  proof
    assume "index_key gs (i, j) \<in> set (lower_keys gs ?ps)"
    then obtain q where q: "q \<in> set ?ps" "snd q < fst q" "index_key gs q = index_key gs (i, j)"
      by (auto simp: lower_keys_def)
    have "index_key gs q \<noteq> index_key gs (i, j)"
      using q(1,2) ij by (intro distinct_keys_neq[OF dk]) (auto simp: set_index_pairs)
    with q(3) show False by simp
  qed
  with mc have keep: "entry_at ?org ?key h' (index_key gs (i, j)) = Some (Frame f)"
    using ef by simp
  from mc fb have df: "dfs h' f = dfs h2 f" by simp
  from eg obtain m where m: "map_of (uns (ads h' ?org)) ?key = Some m"
    by (auto simp: entry_at_def split: option.splits)
  from m keep eg have
    "map_of m (pair_key (gs ! i) (gs ! j)) = Some (Frame f)"
    "map_of m (pair_key (gs ! j) (gs ! i)) = Some (Frame g)"
    by (simp_all add: entry_at_def index_key_def)
  moreover from fb gb have "f \<noteq> g" by simp
  moreover from tg ff tf have "dfs h' g = neg_log2fc t" by simp
  moreover from df tf have "dfs h' f = t" by simp
  ultimately show ?thesis using m w st by blast
qed

lemma pairWise_returned:
  assumes "pairWise wald adata a h = Inr (h', r)"
  shows "r = (if copy a
              then map_of (uns (ads h' (adataOrg_of adata a h))) (result_key ''diffxpyPairWise_'' a)
              else None)"
  using assms unfolding pairWise_def Let_def
  by (auto split: sum.splits if_splits option.splits)

lemma pairWise_clash:
  "\<exists>h m f. pairWise toy_wald 0 ((default_args ''group'')\<lparr>minCellCounts := 1, copy := True\<rparr>)
              heap_clash = Inr (h, Some m) \<and>
            map_of m (pair_key ''a'' ''a_bg_a'') = Some (Frame f) \<and>
            map_of m (pair_key ''a_bg_a'' ''a'') = Some (Frame f) \<and>
            map log2fc (rows (dfs h f)) = [- 100, 0]"
  by (simp add: dispatch_defs adapter_defs example_defs Let_def upt_rec toy_wald_def class_sum_def
      stats_row_def)

text \<open>
  C2, as stated, fails for group names whose keys coincide. For the groups \<^verbatim>\<open>a\<close> and \<^verbatim>\<open>a_bg_a\<close>
  the keys \<^verbatim>\<open>test_a_bg_a_bg_a\<close> of the two ordered pairs are one string: the mirror step
  replaces the computed table by its negated copy, so the table under the key of (B, A) is the
  table under the key of (A, B), and its fold changes (-100 and 0, where the engine gave 100
  and 0) are not the negation of themselves.
\<close>

theorem pairWise_mirror_key_clash:
  "\<exists>h m f. pairWise toy_wald 0 ((default_args ''group'')\<lparr>minCellCounts := 1, copy := True\<rparr>)
              heap_clash = Inr (h, Some m) \<and>
            map_of m (pair_key ''a'' ''a_bg_a'') = Some (Frame f) \<and>
            map_of m (pair_key ''a_bg_a'' ''a'') = Some (Frame f) \<and>
            map log2fc (rows (dfs h f)) = [- 100, 0] \<and>
            map log2fc (rows (dfs h f)) \<noteq> map uminus (map log2fc (rows (dfs h f)))"
proof -
  from pairWise_clash obtain h m f where
    c: "pairWise toy_wald 0 ((default_args ''group'')\<lparr>minCellCounts := 1, copy := True\<rparr>)
              heap_clash = Inr (h, Some m)"
      "map_of m (pair_key ''a'' ''a_bg_a'') = Some (Frame f)"
      "map_of m (pair_key ''a_bg_a'' ''a'') = Some (Frame f)"
      "map log2fc (rows (dfs h f)) = [- 100, 0]"
    by auto
  from c(4) have "map log2fc (rows (dfs h f)) \<noteq> map uminus (map log2fc (rows (dfs h f)))"
    by simp
  with c show ?thesis by auto
qed

text \<open>
  C2, amended. Let \<^verbatim>\<open>pairWise\<close> return on a group list \<open>gs\<close> whose keys are distinct for distinct
  ordered pairs of positions, and let A stand at position \<open>i\<close> before B at position \<open>j\<close>. Then
  the mapping stored at the result key holds, under \<^verbatim>\<open>test_A_bg_B\<close>, the table \<open>t\<close> that the
  tester returned for the split of A against B on the working collection, unchanged, and under
  \<^verbatim>\<open>test_B_bg_A\<close> another object, equal to \<open>t\<close> with the \<^verbatim>\<open>log2fc\<close> column negated: its \<^verbatim>\<open>log2fc\<close>
  column is the elementwise negation and its \<^verbatim>\<open>qval\<close>, \<^verbatim>\<open>mean\<close> and \<^verbatim>\<open>coef_mle\<close> columns are those
  of the table under \<^verbatim>\<open>test_A_bg_B\<close>. With the copy flag this mapping is the value returned.
\<close>

theorem pairWise_mirrored:
  assumes "pairWise wald adata a h = Inr (h', r)"
    and "resolve_groups (ads h adata) a = Inr gs"
    and "distinct_keys gs"
    and "i < j" and "j < length gs"
  shows "\<exists>m w t f g.
           map_of (uns (ads h' (adataOrg_of adata a h))) (result_key ''diffxpyPairWise_'' a) = Some m \<and>
           (copy a \<longrightarrow> r = Some m) \<and>
           pairWise_working (ads h adata) (layer_name a) a gs = Inr w \<and>
           split_test wald w a (gs ! i) (OneComp (gs ! j)) = Inr t \<and>
           map_of m (pair_key (gs ! i) (gs ! j)) = Some (Frame f) \<and>
           map_of m (pair_key (gs ! j) (gs ! i)) = Some (Frame g) \<and>
           f \<noteq> g \<and> dfs h' f = t \<and> dfs h' g = neg_log2fc t \<and>
           map log2fc (rows (dfs h' g)) = map uminus (map log2fc (rows (dfs h' f))) \<and>
           map qval (rows (dfs h' g)) = map qval (rows (dfs h' f)) \<and>
           map mean (rows (dfs h' g)) = map mean (rows (dfs h' f)) \<and>
           map coef_mle (rows (dfs h' g)) = map coef_mle (rows (dfs h' f)) \<and>
           map gene (rows (dfs h' g)) = map gene (rows (dfs h' f))"
proof -
  from pairWise_mirrored_core[OF assms] obtain m w t f g where
    c: "map_of (uns (ads h' (adataOrg_of adata a h))) (result_key ''diffxpyPairWise_'' a) = Some m"
      "pairWise_working (ads h adata) (layer_name a) a gs = Inr w"
      "split_test wald w a (gs ! i) (OneComp (gs ! j)) = Inr t"
      "map_of m (pair_key (gs ! i) (gs ! j)) = Some (Frame f)"
      "map_of m (pair_key (gs ! j) (gs ! i)) = Some (Frame g)"
      "f \<noteq> g" "dfs h' f = t" "dfs h' g = neg_log2fc t"
    by blast
  from pairWise_returned[OF assms(1)] c(1) have "copy a \<longrightarrow> r = Some m"
    by simp
  moreover from c(7,8) have
    "map log2fc (rows (dfs h' g)) = map uminus (map log2fc (rows (dfs h' f)))"
    "map qval (rows (dfs h' g)) = map qval (rows (dfs h' f))"
    "map mean (rows (dfs h' g)) = map mean (rows (dfs h' f))"
    "map coef_mle (rows (dfs h' g)) = map coef_mle (rows (dfs h' f))"
    "map gene (rows (dfs h' g)) = map gene (rows (dfs h' f))"
    by (simp_all add: neg_log2fc_columns)
  ultimately show ?thesis using c by blast
qed

lemma resolve_groups_two:
  "resolve_groups (ads heap_two 0)
     ((default_args ''group'')\<lparr>groups := Some [], minCellCounts := 1, copy := True\<rparr>)
     = Inr [''A'', ''B'']"
  by (simp add: resolve_groups_def example_defs new_ad_def)

lemma distinct_keys_two: "distinct_keys [''A'', ''B'']"
  by (simp add: distinct_keys_def index_pairs_def index_key_def pair_key_def upt_rec)

theorem pairWise_mirrored_witness:
  "\<exists>h' m f g.
     pairWise toy_wald 0
       ((default_args ''group'')\<lparr>groups := Some [], minCellCounts := 1, copy := True\<rparr>)
       heap_two = Inr (h', Some m) \<and>
     distinct_keys [''A'', ''B''] \<and>
     map_of m (pair_key ''A'' ''B'') = Some (Frame f) \<and>
     map_of m (pair_key ''B'' ''A'') = Some (Frame g) \<and> f \<noteq> g \<and>
     map log2fc (rows (dfs h' g)) = map uminus (map log2fc (rows (dfs h' f))) \<and>
     map qval (rows (dfs h' g)) = map qval (rows (dfs h' f)) \<and>
     map mean (rows (dfs h' g)) = map mean (rows (dfs h' f)) \<and>
     map coef_mle (rows (dfs h' g)) = map coef_mle (rows (dfs h' f))"
proof -
  from pairWise_two_empty_groups obtain h' m where
    run: "pairWise toy_wald 0
       ((default_args ''group'')\<lparr>groups := Some [], minCellCounts := 1, copy := True\<rparr>)
       heap_two = Inr (h', Some m)"
    by blast
  have ij: "(0::nat) < 1" "(1::nat) < length [''A'', ''B'']"
    by simp_all
  from pairWise_mirrored[OF run resolve_groups_two distinct_keys_two ij] run distinct_keys_two
  show ?thesis by (simp add: default_args_def) blast
qed

section \<open>The dispatchers: an empty group list\<close>

lemma keys_set_uns: "keys_at org key (set_uns org key m h) = fst ` set m"
  by (simp add: keys_at_def set_uns_def update_conv')

lemma keys_store_result:
  assumes "store_result org key k t h = Inr h'"
  shows "keys_at org key h' = insert k (keys_at org key h)"
proof -
  from store_result_Inr[OF assms] obtain m where
    m: "map_of (uns (ads h org)) key = Some m"
    and h': "h' = h\<lparr>ads := (ads h)(org := (ads h org)\<lparr>uns :=
                     AList.update key (AList.update k (Frame (next_df h)) m) (uns (ads h org))\<rparr>),
                  dfs := (dfs h)(next_df h := t), next_df := Suc (next_df h)\<rparr>"
    by blast
  from h' have "map_of (uns (ads h' org)) key = Some (AList.update k (Frame (next_df h)) m)"
    by (simp add: update_conv')
  with m show ?thesis by (simp add: keys_at_def dom_update)
qed

lemma keys_vsRest_seq:
  assumes "vsRest_seq wald ad a org key gs h = Inr h'"
  shows "keys_at org key h' = keys_at org key h \<union> set gs"
  using assms
proof (induction gs arbitrary: h)
  case Nil
  then show ?case by simp
next
  case (Cons g gs)
  from Cons.prems obtain t h1 where
    s: "store_result org key g t h = Inr h1" and r: "vsRest_seq wald ad a org key gs h1 = Inr h'"
    by (auto split: sum.splits)
  from Cons.IH[OF r] keys_store_result[OF s] show ?case by auto
qed

lemma keys_update_results:
  assumes "update_results org key rs h = Inr h'"
  shows "keys_at org key h' = keys_at org key h \<union> fst ` set rs"
  using assms
proof (induction rs arbitrary: h)
  case Nil
  then show ?case by simp
next
  case (Cons kt rs)
  obtain k t where kt: "kt = (k, t)" by (cases kt)
  from Cons.prems kt obtain h1 where
    s: "store_result org key k t h = Inr h1" and r: "update_results org key rs h1 = Inr h'"
    by (auto split: sum.splits)
  from Cons.IH[OF r] keys_store_result[OF s] kt show ?case by auto
qed

lemma results_of_keys:
  assumes "results_of fs = Inr rs"
  shows "map fst rs = map fst fs"
  using assms
proof (induction fs arbitrary: rs)
  case Nil
  then show ?case by simp
next
  case (Cons kr fs)
  obtain k r where kr: "kr = (k, r)" by (cases kr)
  from Cons.prems kr obtain t rs' where
    rest: "results_of fs = Inr rs'" and rs: "rs = (k, t) # rs'"
    by (auto split: sum.splits)
  from Cons.IH[OF rest] rs kr show ?case by simp
qed

lemma keys_futures:
  "fst ` set (foldl (\<lambda>d g. AList.update g (F g) d) d0 gs) = fst ` set d0 \<union> set gs"
proof (induction gs arbitrary: d0)
  case Nil
  show ?case by simp
next
  case (Cons g gs)
  from Cons[of "AList.update g (F g) d0"] show ?case by (simp add: dom_update)
qed

lemma keys_vsRest_par:
  assumes "vsRest_par wald ad a org key gs h = Inr h'"
  shows "keys_at org key h' = keys_at org key h \<union> set gs"
proof -
  let ?F = "\<lambda>singleGroup. getDiffxpy wald
              (ad\<lparr>X := Sparse (replicate (length (entries (X ad)))
                                  (replicate (length (var ad)) 0))\<rparr>)
              (testLabel a) singleGroup (batchLabel a) (minCellCounts a) (quickScale a)
              (sizeFactor a) (constrainModel a)
              (Some (entries (X ad), length (entries (X ad)), length (var ad)))"
  from assms obtain rs where
    ro: "results_of (foldl (\<lambda>d g. AList.update g (?F g) d) [] gs) = Inr rs"
    and up: "update_results org key rs h = Inr h'"
    by (auto simp: vsRest_par_def Let_def split: sum.splits)
  from results_of_keys[OF ro] have "fst ` set rs = fst ` set (foldl (\<lambda>d g. AList.update g (?F g) d) [] gs)"
    by (metis image_set)
  with keys_futures[of ?F "[]" gs] have "fst ` set rs = set gs" by simp
  with keys_update_results[OF up] show ?thesis by simp
qed

lemma keys_pairWise_tests:
  assumes "pairWise_tests wald ad a org key gs ps h = Inr h'"
  shows "keys_at org key h' = keys_at org key h \<union> set (upper_keys gs ps)"
  using assms
proof (induction ps arbitrary: h)
  case Nil
  then show ?case by (simp add: upper_keys_def)
next
  case (Cons p ps)
  obtain x y where p: "p = (x, y)" by (cases p)
  show ?case
  proof (cases "x \<ge> y")
    case True
    with Cons.prems p have "pairWise_tests wald ad a org key gs ps h = Inr h'" by simp
    from Cons.IH[OF this] True p show ?thesis by (simp add: upper_keys_def)
  next
    case False
    with Cons.prems p obtain t h1 where
      s: "store_result org key (pair_key (gs ! x) (gs ! y)) t h = Inr h1"
      and r: "pairWise_tests wald ad a org key gs ps h1 = Inr h'"
      by (auto split: sum.splits)
    from Cons.IH[OF r] keys_store_result[OF s] False p show ?thesis
      by (auto simp: upper_keys_def index_key_def)
  qed
qed

lemma keys_mirror_entry:
  assumes "mirror_entry org key tg bg h = Inr h'"
  shows "keys_at org key h' = insert (pair_key tg bg) (keys_at org key h)"
proof -
  from mirror_entry_Inr[OF assms] obtain m r where
    m: "map_of (uns (ads h org)) key = Some m"
    and h': "h' = h\<lparr>ads := (ads h)(org := (ads h org)\<lparr>uns :=
                     AList.update key (AList.update (pair_key tg bg) (Frame (next_df h)) m)
                       (uns (ads h org))\<rparr>),
                  dfs := (dfs h)(next_df h := neg_log2fc (dfs h r)),
                  next_df := Suc (next_df h)\<rparr>"
    by blast
  from h' have "map_of (uns (ads h' org)) key =
                  Some (AList.update (pair_key tg bg) (Frame (next_df h)) m)"
    by (simp add: update_conv')
  with m show ?thesis by (simp add: keys_at_def dom_update)
qed

lemma keys_pairWise_mirror:
  assumes "pairWise_mirror org key gs ps h = Inr h'"
  shows "keys_at org key h' = keys_at org key h \<union> set (lower_keys gs ps)"
  using assms
proof (induction ps arbitrary: h)
  case Nil
  then show ?case by (simp add: lower_keys_def)
next
  case (Cons p ps)
  obtain x y where p: "p = (x, y)" by (cases p)
  show ?case
  proof (cases "x \<le> y")
    case True
    with Cons.prems p have "pairWise_mirror org key gs ps h = Inr h'" by simp
    from Cons.IH[OF this] True p show ?thesis by (simp add: lower_keys_def)
  next
    case False
    with Cons.prems p obtain h1 where
      s: "mirror_entry org key (gs ! x) (gs ! y) h = Inr h1"
      and r: "pairWise_mirror org key gs ps h1 = Inr h'"
      by (auto split: sum.splits)
    from Cons.IH[OF r] keys_mirror_entry[OF s] False p show ?thesis
      by (auto simp: lower_keys_def index_key_def)
  qed
qed

lemma pair_keys_split:
  "set (pair_keys gs) = set (upper_keys gs (index_pairs (length gs))) \<union>
                        set (lower_keys gs (index_pairs (length gs)))"
  by (auto simp: pair_keys_def upper_keys_def lower_keys_def linorder_neq_iff)

lemma vsRest_keys:
  assumes run: "vsRest wald adata a h = Inr (h', r)"
  shows "\<exists>gs. resolve_groups (ads h adata) a = Inr gs \<and>
           keys_at (adataOrg_of adata a h) (result_key ''diffxpyVsRest_'' a) h' =
             insert ''__cat'' (set gs) \<and>
           (copy a \<longrightarrow> (\<exists>m. r = Some m \<and> fst ` set m = insert ''__cat'' (set gs)))"
proof -
  let ?key = "result_key ''diffxpyVsRest_'' a"
  let ?org = "adataOrg_of adata a h"
  let ?h1 = "copy_or_alias adata a h"
  let ?h1' = "set_uns ?org ?key [(''__cat'', Cat ''vsRest'')] ?h1"
  from run obtain gs w where
    gs: "resolve_groups (ads h adata) a = Inr gs"
    and loop: "(if 1 < threads a then vsRest_par wald w a ?org ?key gs ?h1'
            else vsRest_seq wald (w\<lparr>X := densify (X w)\<rparr>) a ?org ?key gs ?h1') = Inr h'"
    and res: "r = (if copy a then map_of (uns (ads h' ?org)) ?key else None)"
    unfolding vsRest_def Let_def
    by (auto split: sum.splits if_splits option.splits)
  from loop have "keys_at ?org ?key h' = keys_at ?org ?key ?h1' \<union> set gs"
    by (auto split: if_splits dest: keys_vsRest_par keys_vsRest_seq)
  then have k: "keys_at ?org ?key h' = insert ''__cat'' (set gs)"
    by (simp add: keys_set_uns)
  have "copy a \<longrightarrow> (\<exists>m. r = Some m \<and> fst ` set m = insert ''__cat'' (set gs))"
  proof
    assume c: "copy a"
    from k obtain m where m: "map_of (uns (ads h' ?org)) ?key = Some m"
      by (cases "map_of (uns (ads h' ?org)) ?key") (auto simp: keys_at_def)
    with k have "fst ` set m = insert ''__cat'' (set gs)" by (simp add: keys_at_def)
    with res c m show "\<exists>m. r = Some m \<and> fst ` set m = insert ''__cat'' (set gs)" by simp
  qed
  with gs k show ?thesis by blast
qed

lemma pairWise_keys:
  assumes run: "pairWise wald adata a h = Inr (h', r)"
  shows "\<exists>gs. resolve_groups (ads h adata) a = Inr gs \<and>
           keys_at (adataOrg_of adata a h) (result_key ''diffxpyPairWise_'' a) h' =
             insert ''__cat'' (set (pair_keys gs)) \<and>
           (copy a \<longrightarrow> (\<exists>m. r = Some m \<and> fst ` set m = insert ''__cat'' (set (pair_keys gs))))"
proof -
  let ?key = "result_key ''diffxpyPairWise_'' a"
  let ?org = "adataOrg_of adata a h"
  let ?h1 = "copy_or_alias adata a h"
  let ?h1' = "set_uns ?org ?key [(''__cat'', Cat ''pairWise'')] ?h1"
  from run obtain gs w h2 where
    gs: "resolve_groups (ads h adata) a = Inr gs"
    and loop1: "pairWise_tests wald w a ?org ?key gs (index_pairs (length gs)) ?h1' = Inr h2"
    and loop2: "pairWise_mirror ?org ?key gs (index_pairs (length gs)) h2 = Inr h'"
    and res: "r = (if copy a then map_of (uns (ads h' ?org)) ?key else None)"
    unfolding pairWise_def Let_def
    by (auto split: sum.splits if_splits option.splits)
  from keys_pairWise_mirror[OF loop2] keys_pairWise_tests[OF loop1]
  have k: "keys_at ?org ?key h' = insert ''__cat'' (set (pair_keys gs))"
    by (simp add: keys_set_uns pair_keys_split Un_assoc)
  have "copy a \<longrightarrow> (\<exists>m. r = Some m \<and> fst ` set m = insert ''__cat'' (set (pair_keys gs)))"
  proof
    assume c: "copy a"
    from k obtain m where m: "map_of (uns (ads h' ?org)) ?key = Some m"
      by (cases "map_of (uns (ads h' ?org)) ?key") (auto simp: keys_at_def)
    with k have "fst ` set m = insert ''__cat'' (set (pair_keys gs))" by (simp add: keys_at_def)
    with res c m show "\<exists>m. r = Some m \<and> fst ` set m = insert ''__cat'' (set (pair_keys gs))"
      by simp
  qed
  with gs k show ?thesis by blast
qed


lemma adataOrg_of_groups: "adataOrg_of ad (a\<lparr>groups := g\<rparr>) h = adataOrg_of ad a h"
  by (simp add: adataOrg_of_def)

lemma result_key_groups: "result_key pre (a\<lparr>groups := g\<rparr>) = result_key pre a"
  by (simp add: result_key_def)

lemma resolve_groups_all:
  assumes "resolve_groups ad (a\<lparr>groups := Some []\<rparr>) = Inr gs"
  shows "\<exists>col. map_of (obs ad) (testLabel a) = Some col \<and> gs = map str_cell (unique col)"
  using assms by (auto simp: resolve_groups_def split: option.splits)

text \<open>
  C7, as stated, fails: \<^verbatim>\<open>groups = []\<close> does not give an empty mapping. On the collection of
  two cells of groups A and B, \<^verbatim>\<open>vsRest\<close> stores a table for A and for B, and \<^verbatim>\<open>pairWise\<close>
  one for each ordered pair; on the collection of one cell \<^verbatim>\<open>vsRest\<close> raises.
\<close>

theorem empty_groups_not_empty_mapping:
  "(\<exists>h m. vsRest toy_wald 0
            ((default_args ''group'')\<lparr>groups := Some [], minCellCounts := 1, copy := True\<rparr>)
            heap_two = Inr (h, Some m) \<and>
          map fst m = [''__cat'', ''A'', ''B'']) \<and>
   (\<exists>h m. pairWise toy_wald 0
            ((default_args ''group'')\<lparr>groups := Some [], minCellCounts := 1, copy := True\<rparr>)
            heap_two = Inr (h, Some m) \<and>
          map fst m = [''__cat'', ''test_A_bg_B'', ''test_B_bg_A'']) \<and>
   vsRest toy_wald 0 ((default_args ''group'')\<lparr>groups := Some []\<rparr>) heap_one = Inl AssertionError"
  using vsRest_two_empty_groups pairWise_two_empty_groups vsRest_one_empty_groups by blast

text \<open>
  C7, amended. An explicitly empty group list is falsy, as an omitted one is: \<^verbatim>\<open>vsRest\<close> and
  \<^verbatim>\<open>pairWise\<close> called with \<^verbatim>\<open>groups = []\<close> behave exactly as called with \<^verbatim>\<open>groups = None\<close>, in the
  store reached, in the value returned and in the exception raised. When such a call returns,
  the group-label column exists and the groups tested are its distinct values: the keys of the
  mapping stored at the result key, which is the mapping returned with the copy flag, are
  \<^verbatim>\<open>"__cat"\<close> and, for \<^verbatim>\<open>vsRest\<close>, the name of every distinct value, for \<^verbatim>\<open>pairWise\<close>, the key
  \<^verbatim>\<open>test_X_bg_Y\<close> of every ordered pair of different distinct values. Keys that coincide as
  strings are one entry of the mapping.
\<close>

theorem empty_groups_as_omitted:
  "vsRest wald ad (a\<lparr>groups := Some []\<rparr>) h = vsRest wald ad (a\<lparr>groups := None\<rparr>) h \<and>
   pairWise wald ad (a\<lparr>groups := Some []\<rparr>) h = pairWise wald ad (a\<lparr>groups := None\<rparr>) h \<and>
   (\<forall>h' r. vsRest wald ad (a\<lparr>groups := Some []\<rparr>) h = Inr (h', r) \<longrightarrow>
      (\<exists>col. map_of (obs (ads h ad)) (testLabel a) = Some col \<and>
         keys_at (adataOrg_of ad a h) (result_key ''diffxpyVsRest_'' a) h' =
           insert ''__cat'' (set (map str_cell (unique col))) \<and>
         (copy a \<longrightarrow>
            (\<exists>m. r = Some m \<and>
               fst ` set m = insert ''__cat'' (set (map str_cell (unique col))))))) \<and>
   (\<forall>h' r. pairWise wald ad (a\<lparr>groups := Some []\<rparr>) h = Inr (h', r) \<longrightarrow>
      (\<exists>col. map_of (obs (ads h ad)) (testLabel a) = Some col \<and>
         keys_at (adataOrg_of ad a h) (result_key ''diffxpyPairWise_'' a) h' =
           insert ''__cat'' (set (pair_keys (map str_cell (unique col)))) \<and>
         (copy a \<longrightarrow>
            (\<exists>m. r = Some m \<and>
               fst ` set m = insert ''__cat'' (set (pair_keys (map str_cell (unique col))))))))"
proof (intro conjI allI impI)
  show "vsRest wald ad (a\<lparr>groups := Some []\<rparr>) h = vsRest wald ad (a\<lparr>groups := None\<rparr>) h"
    by (simp add: vsRest_def resolve_groups_empty vsRest_seq_groups_field
        vsRest_par_groups_field vsRest_working_groups_field
        Let_def layer_name_def result_key_def adataOrg_of_def
        copy_or_alias_def cong: sum.case_cong if_cong)
  show "pairWise wald ad (a\<lparr>groups := Some []\<rparr>) h = pairWise wald ad (a\<lparr>groups := None\<rparr>) h"
    by (simp add: pairWise_def resolve_groups_empty pairWise_tests_groups_field
        pairWise_working_groups_field Let_def layer_name_def result_key_def adataOrg_of_def
        copy_or_alias_def cong: sum.case_cong if_cong)
next
  fix h' r
  assume run: "vsRest wald ad (a\<lparr>groups := Some []\<rparr>) h = Inr (h', r)"
  from vsRest_keys[OF run]
  have "\<exists>gs. resolve_groups (ads h ad) (a\<lparr>groups := Some []\<rparr>) = Inr gs \<and>
          keys_at (adataOrg_of ad a h) (result_key ''diffxpyVsRest_'' a) h' =
            insert ''__cat'' (set gs) \<and>
          (copy a \<longrightarrow> (\<exists>m. r = Some m \<and> fst ` set m = insert ''__cat'' (set gs)))"
    by (simp add: adataOrg_of_groups result_key_groups)
  then obtain gs where
    gs: "resolve_groups (ads h ad) (a\<lparr>groups := Some []\<rparr>) = Inr gs"
    and k: "keys_at (adataOrg_of ad a h) (result_key ''diffxpyVsRest_'' a) h' =
              insert ''__cat'' (set gs)"
    and c: "copy a \<longrightarrow> (\<exists>m. r = Some m \<and> fst ` set m = insert ''__cat'' (set gs))"
    by blast
  from resolve_groups_all[OF gs] obtain col where
    col: "map_of (obs (ads h ad)) (testLabel a) = Some col" and eq: "gs = map str_cell (unique col)"
    by blast
  from k c show "\<exists>col. map_of (obs (ads h ad)) (testLabel a) = Some col \<and>
         keys_at (adataOrg_of ad a h) (result_key ''diffxpyVsRest_'' a) h' =
           insert ''__cat'' (set (map str_cell (unique col))) \<and>
         (copy a \<longrightarrow>
            (\<exists>m. r = Some m \<and>
               fst ` set m = insert ''__cat'' (set (map str_cell (unique col)))))"
    unfolding eq by (intro exI[where x = col] conjI col)
next
  fix h' r
  assume run: "pairWise wald ad (a\<lparr>groups := Some []\<rparr>) h = Inr (h', r)"
  from pairWise_keys[OF run]
  have "\<exists>gs. resolve_groups (ads h ad) (a\<lparr>groups := Some []\<rparr>) = Inr gs \<and>
          keys_at (adataOrg_of ad a h) (result_key ''diffxpyPairWise_'' a) h' =
            insert ''__cat'' (set (pair_keys gs)) \<and>
          (copy a \<longrightarrow> (\<exists>m. r = Some m \<and> fst ` set m = insert ''__cat'' (set (pair_keys gs))))"
    by (simp add: adataOrg_of_groups result_key_groups)
  then obtain gs where
    gs: "resolve_groups (ads h ad) (a\<lparr>groups := Some []\<rparr>) = Inr gs"
    and k: "keys_at (adataOrg_of ad a h) (result_key ''diffxpyPairWise_'' a) h' =
              insert ''__cat'' (set (pair_keys gs))"
    and c: "copy a \<longrightarrow> (\<exists>m. r = Some m \<and> fst ` set m = insert ''__cat'' (set (pair_keys gs)))"
    by blast
  from resolve_groups_all[OF gs] obtain col where
    col: "map_of (obs (ads h ad)) (testLabel a) = Some col" and eq: "gs = map str_cell (unique col)"
    by blast
  from k c show "\<exists>col. map_of (obs (ads h ad)) (testLabel a) = Some col \<and>
         keys_at (adataOrg_of ad a h) (result_key ''diffxpyPairWise_'' a) h' =
           insert ''__cat'' (set (pair_keys (map str_cell (unique col)))) \<and>
         (copy a \<longrightarrow>
            (\<exists>m. r = Some m \<and>
               fst ` set m = insert ''__cat'' (set (pair_keys (map str_cell (unique col))))))"
    unfolding eq by (intro exI[where x = col] conjI col)
qed

theorem empty_groups_as_omitted_witness:
  "(\<exists>h m. vsRest toy_wald 0
            ((default_args ''group'')\<lparr>groups := Some [], minCellCounts := 1, copy := True\<rparr>)
            heap_two = Inr (h, Some m) \<and>
          fst ` set m = {''__cat'', ''A'', ''B''}) \<and>
   (\<exists>h m. pairWise toy_wald 0
            ((default_args ''group'')\<lparr>groups := Some [], minCellCounts := 1, copy := True\<rparr>)
            heap_two = Inr (h, Some m) \<and>
          fst ` set m = {''__cat'', ''test_A_bg_B'', ''test_B_bg_A''})"
proof -
  let ?a = "(default_args ''group'')\<lparr>groups := Some [], minCellCounts := 1, copy := True\<rparr>"
  have eqa: "?a\<lparr>groups := Some []\<rparr> = ?a" by (simp add: default_args_def)
  have lab: "testLabel ?a = ''group''" and cp: "copy ?a" by (simp_all add: default_args_def)
  have col: "map_of (obs (ads heap_two 0)) ''group'' = Some [S ''A'', S ''B'']"
    by (simp add: heap_two_def ad_two_def new_ad_def empty_heap_def)
  have gs: "map str_cell (unique [S ''A'', S ''B'']) = [''A'', ''B'']" by simp
  have pk: "set (pair_keys [''A'', ''B'']) = {''test_A_bg_B'', ''test_B_bg_A''}"
    by (auto simp: pair_keys_def index_pairs_def index_key_def pair_key_def upt_rec)
  note th = empty_groups_as_omitted[of toy_wald 0 ?a heap_two, unfolded eqa lab]
  from vsRest_two_empty_groups obtain h m where
    run: "vsRest toy_wald 0 ?a heap_two = Inr (h, Some m)" by blast
  from th run have "\<exists>col. map_of (obs (ads heap_two 0)) ''group'' = Some col \<and>
         keys_at (adataOrg_of 0 ?a heap_two) (result_key ''diffxpyVsRest_'' ?a) h =
           insert ''__cat'' (set (map str_cell (unique col))) \<and>
         (copy ?a \<longrightarrow>
            (\<exists>m'. Some m = Some m' \<and>
               fst ` set m' = insert ''__cat'' (set (map str_cell (unique col)))))"
    by blast
  with col cp have "fst ` set m = insert ''__cat'' (set (map str_cell (unique [S ''A'', S ''B''])))"
    by auto
  with run have a: "\<exists>h m. vsRest toy_wald 0 ?a heap_two = Inr (h, Some m) \<and>
                      fst ` set m = {''__cat'', ''A'', ''B''}"
    by (auto simp only: gs list.set)
  from pairWise_two_empty_groups obtain h2 m2 where
    run2: "pairWise toy_wald 0 ?a heap_two = Inr (h2, Some m2)" by blast
  from th run2 have "\<exists>col. map_of (obs (ads heap_two 0)) ''group'' = Some col \<and>
         keys_at (adataOrg_of 0 ?a heap_two) (result_key ''diffxpyPairWise_'' ?a) h2 =
           insert ''__cat'' (set (pair_keys (map str_cell (unique col)))) \<and>
         (copy ?a \<longrightarrow>
            (\<exists>m'. Some m2 = Some m' \<and>
               fst ` set m' = insert ''__cat'' (set (pair_keys (map str_cell (unique col))))))"
    by blast
  with col cp have "fst ` set m2 =
      insert ''__cat'' (set (pair_keys (map str_cell (unique [S ''A'', S ''B'']))))"
    by auto
  with run2 have b: "\<exists>h m. pairWise toy_wald 0 ?a heap_two = Inr (h, Some m) \<and>
                      fst ` set m = {''__cat'', ''test_A_bg_B'', ''test_B_bg_A''}"
    by (auto simp only: gs pk)
  from a b show ?thesis by (rule conjI)
qed

section \<open>The marker extractor on a one-vs-rest mapping\<close>

lemma descending_sort_key: "descending (sort_key (\<lambda>r. - coef_mle r) rs)"
proof -
  have "sorted (map (\<lambda>r. - coef_mle r) (sort_key (\<lambda>r. - coef_mle r) rs))"
    by (rule sorted_sort_key)
  then show ?thesis
    by (simp add: descending_def sorted_wrt_map)
qed

lemma sorts_stable_sort: "sorts stable_sort"
  by (simp add: sorts_def stable_sort_def descending_sort_key)



lemma sorts_filter: "sorts srt \<Longrightarrow> length (filter P (srt rs)) = length (filter P rs)"
  by (metis sorts_def mset_filter size_mset)






lemma labelled_frame_eq:
  assumes "labelled col name h dt" and "\<forall>r\<in>set (frames_of dt). dfs h1 r = dfs h r"
  shows "labelled col name h1 dt"
  using assms
  by (induction col name h dt rule: labelled.induct) (auto split: if_splits)

lemma insert_if_absent_other: "r' \<noteq> r \<Longrightarrow> dfs (insert_if_absent r loc c v h) r' = dfs h r'"
  by (simp add: insert_if_absent_def)

lemma insert_if_absent_labelled:
  assumes "c \<notin> set (columns (dfs h r)) \<or> list_all (\<lambda>rw. labels rw c = Some v) (rows (dfs h r))"
  shows "list_all (\<lambda>rw. labels rw c = Some v) (rows (dfs (insert_if_absent r loc c v h) r))"
  using assms by (auto simp: insert_if_absent_def insert_col_def list_all_iff)



lemma getMarker_vsRest_core:
  assumes "map_of (uns (ads h adata)) key = Some dt"
    and "map_of dt ''__cat'' = Some (Cat ''vsRest'')"
    and "getMarker srt adata key q l m dc h = Inr (h', res)"
  shows "\<exists>t ts. res = Markers t \<and> vsRest_tables srt dt q l m h = Inr (h', ts) \<and>
           rows t = concat (map rows ts)"
  using assms
  by (auto simp: getMarker_def vsRest_markers_def concat_df_def split: sum.splits if_splits)


lemma frames_of_update:
  assumes "k \<noteq> ''__cat''"
  shows "set (frames_of (AList.update k (Frame f) m)) \<subseteq> insert f (set (frames_of m))"
  using assms
  by (induction m rule: frames_of.induct) auto

lemma distinct_frames_of_update:
  assumes "k \<noteq> ''__cat''" and "distinct (frames_of m)" and "f \<notin> set (frames_of m)"
  shows "distinct (frames_of (AList.update k (Frame f) m))"
  using assms
proof (induction m rule: frames_of.induct)
  case 1
  then show ?case by simp
next
  case (2 k' s dt)
  then show ?case using frames_of_update[of k f dt] by auto
next
  case (3 k' r dt)
  then show ?case using frames_of_update[of k f dt] by auto
qed

lemma fresh_tables_store:
  assumes "store_result org key k t h = Inr h'" and "fresh_tables org key h"
    and "k \<noteq> ''__cat''" and "columns t = []"
  shows "fresh_tables org key h'"
proof -
  from store_result_Inr[OF assms(1)] obtain m where
    m: "map_of (uns (ads h org)) key = Some m"
    and h': "h' = h\<lparr>ads := (ads h)(org := (ads h org)\<lparr>uns :=
                     AList.update key (AList.update k (Frame (next_df h)) m) (uns (ads h org))\<rparr>),
                  dfs := (dfs h)(next_df h := t), next_df := Suc (next_df h)\<rparr>"
    by blast
  from assms(2) m have tag: "map_of m ''__cat'' = Some (Cat ''vsRest'')"
    and d: "distinct (frames_of m)"
    and old: "\<forall>r\<in>set (frames_of m). r < next_df h \<and> columns (dfs h r) = []"
    by (auto simp: fresh_tables_def)
  let ?m = "AList.update k (Frame (next_df h)) m"
  from old have notin: "next_df h \<notin> set (frames_of m)" by auto
  have 1: "map_of (uns (ads h' org)) key = Some ?m" by (simp add: h' update_conv')
  have 2: "map_of ?m ''__cat'' = Some (Cat ''vsRest'')"
    using tag assms(3) by (simp add: update_conv')
  have 3: "distinct (frames_of ?m)"
    by (rule distinct_frames_of_update[OF assms(3) d notin])
  have 4: "\<forall>r\<in>set (frames_of ?m). r < next_df h' \<and> columns (dfs h' r) = []"
    using frames_of_update[OF assms(3), of "next_df h" m] old assms(4)
    by (auto simp: h' less_Suc_eq)
  from 1 2 3 4 show ?thesis unfolding fresh_tables_def by blast
qed

lemma testTwoSample_columns: "testTwoSample wald ad k b qs sf cm = Inr t \<Longrightarrow> columns t = []"
  by (auto simp: testTwoSample_def summary_def split: option.splits if_splits)

lemma split_test_columns: "split_test wald ad a tc oc = Inr t \<Longrightarrow> columns t = []"
  by (auto simp: split_test_def split: sum.splits dest: testTwoSample_columns)

lemma getDiffxpy_columns:
  "getDiffxpy wald ad lab tc b mcc qs sf cm shm = Inr t \<Longrightarrow> columns t = []"
  by (auto simp: getDiffxpy_def split: sum.splits dest: testTwoSample_columns)

lemma fresh_tables_vsRest_seq:
  assumes "vsRest_seq wald ad a org key gs h = Inr h'" and "fresh_tables org key h"
    and "''__cat'' \<notin> set gs"
  shows "fresh_tables org key h'"
  using assms
proof (induction gs arbitrary: h)
  case Nil
  then show ?case by simp
next
  case (Cons g gs)
  from Cons.prems(1) obtain t h1 where
    st: "split_test wald ad a g NoComp = Inr t"
    and s: "store_result org key g t h = Inr h1"
    and r: "vsRest_seq wald ad a org key gs h1 = Inr h'"
    by (auto split: sum.splits)
  from Cons.prems(3) have g: "g \<noteq> ''__cat''" and gs: "''__cat'' \<notin> set gs" by auto
  from Cons.IH[OF r fresh_tables_store[OF s Cons.prems(2) g split_test_columns[OF st]] gs]
  show ?case .
qed

lemma fresh_tables_update_results:
  assumes "update_results org key rs h = Inr h'" and "fresh_tables org key h"
    and "\<forall>(k, t)\<in>set rs. k \<noteq> ''__cat'' \<and> columns t = []"
  shows "fresh_tables org key h'"
  using assms
proof (induction rs arbitrary: h)
  case Nil
  then show ?case by simp
next
  case (Cons kt rs)
  obtain k t where kt: "kt = (k, t)" by (cases kt)
  from Cons.prems(1) kt obtain h1 where
    s: "store_result org key k t h = Inr h1" and r: "update_results org key rs h1 = Inr h'"
    by (auto split: sum.splits)
  from Cons.prems(3) kt have k: "k \<noteq> ''__cat''" and c: "columns t = []"
    and rest: "\<forall>(k, t)\<in>set rs. k \<noteq> ''__cat'' \<and> columns t = []"
    by auto
  from Cons.IH[OF r fresh_tables_store[OF s Cons.prems(2) k c] rest] show ?case .
qed

lemma set_update_subset: "set (AList.update k v al) \<subseteq> insert (k, v) (set al)"
  by (induction al) auto

lemma set_futures:
  "set (foldl (\<lambda>d g. AList.update g (F g) d) d0 gs) \<subseteq> set d0 \<union> (\<lambda>g. (g, F g)) ` set gs"
proof (induction gs arbitrary: d0)
  case Nil
  show ?case by simp
next
  case (Cons g gs)
  from Cons[of "AList.update g (F g) d0"] set_update_subset[of g "F g" d0]
  show ?case by auto
qed

lemma results_of_set:
  assumes "results_of fs = Inr rs"
  shows "\<forall>(k, t)\<in>set rs. (k, Inr t) \<in> set fs"
  using assms
proof (induction fs arbitrary: rs)
  case Nil
  then show ?case by simp
next
  case (Cons kr fs)
  obtain k r where kr: "kr = (k, r)" by (cases kr)
  from Cons.prems kr obtain t rs' where
    r: "r = Inr t" and rest: "results_of fs = Inr rs'" and rs: "rs = (k, t) # rs'"
    by (auto split: sum.splits)
  from Cons.IH[OF rest] r rs kr show ?case by auto
qed

lemma fresh_tables_vsRest_par:
  assumes "vsRest_par wald ad a org key gs h = Inr h'" and "fresh_tables org key h"
    and "''__cat'' \<notin> set gs"
  shows "fresh_tables org key h'"
proof -
  let ?F = "\<lambda>g. getDiffxpy wald
              (ad\<lparr>X := Sparse (replicate (length (entries (X ad))) (replicate (length (var ad)) 0))\<rparr>)
              (testLabel a) g (batchLabel a) (minCellCounts a) (quickScale a) (sizeFactor a)
              (constrainModel a) (Some (entries (X ad), length (entries (X ad)), length (var ad)))"
  from assms(1) obtain rs where
    rs: "results_of (foldl (\<lambda>d g. AList.update g (?F g) d) [] gs) = Inr rs"
    and u: "update_results org key rs h = Inr h'"
    by (auto simp: vsRest_par_def Let_def split: sum.splits)
  have "\<forall>(k, t)\<in>set rs. k \<noteq> ''__cat'' \<and> columns t = []"
  proof (clarify)
    fix k t
    assume "(k, t) \<in> set rs"
    with results_of_set[OF rs] have "(k, Inr t) \<in> set (foldl (\<lambda>d g. AList.update g (?F g) d) [] gs)"
      by auto
    with set_futures[of ?F "[]" gs] have "k \<in> set gs" and "?F k = Inr t" by auto
    with assms(3) show "k \<noteq> ''__cat'' \<and> columns t = []"
      by (auto dest: getDiffxpy_columns)
  qed
  from fresh_tables_update_results[OF u assms(2) this] show ?thesis .
qed

lemma labelled_no_columns:
  assumes "\<forall>r\<in>set (frames_of m). columns (dfs h r) = []"
  shows "labelled c name h m"
  using assms
  by (induction c name h m rule: labelled.induct) (auto split: if_splits)

lemma fresh_tables_set_uns:
  "fresh_tables org key (set_uns org key [(''__cat'', Cat ''vsRest'')] h)"
  by (simp add: fresh_tables_def set_uns_def update_conv')

lemma vsRest_establishes:
  assumes "vsRest wald adata a h = Inr (h', r)"
    and "resolve_groups (ads h adata) a = Inr gs"
    and "''__cat'' \<notin> set gs"
  shows "\<exists>dt. map_of (uns (ads h' (adataOrg_of adata a h))) (result_key ''diffxpyVsRest_'' a) = Some dt \<and>
           vsRest_result h' dt"
proof -
  let ?key = "result_key ''diffxpyVsRest_'' a"
  let ?org = "adataOrg_of adata a h"
  let ?h1' = "set_uns ?org ?key [(''__cat'', Cat ''vsRest'')] (copy_or_alias adata a h)"
  from assms(1,2) obtain w where
    loop: "(if 1 < threads a then vsRest_par wald w a ?org ?key gs ?h1'
            else vsRest_seq wald (w\<lparr>X := densify (X w)\<rparr>) a ?org ?key gs ?h1') = Inr h'"
    unfolding vsRest_def Let_def
    by (auto split: sum.splits if_splits option.splits)
  from loop assms(3) fresh_tables_set_uns[of ?org ?key "copy_or_alias adata a h"]
  have "fresh_tables ?org ?key h'"
    by (auto split: if_splits intro: fresh_tables_vsRest_par fresh_tables_vsRest_seq)
  then obtain m where m: "map_of (uns (ads h' ?org)) ?key = Some m"
    and tag: "map_of m ''__cat'' = Some (Cat ''vsRest'')"
    and d: "distinct (frames_of m)"
    and c: "\<forall>r\<in>set (frames_of m). columns (dfs h' r) = []"
    by (auto simp: fresh_tables_def)
  from tag d labelled_no_columns[OF c] have "vsRest_result h' m"
    by (simp add: vsRest_result_def)
  with m show ?thesis by blast
qed

lemma vsRest_tables_frame:
  assumes "vsRest_tables srt dt q l m h = Inr (h', ts)"
  shows "ads h' = ads h \<and> (\<forall>r. r \<notin> set (frames_of dt) \<longrightarrow> dfs h' r = dfs h r)"
  using assms
proof (induction dt arbitrary: h ts)
  case Nil
  then show ?case by simp
next
  case (Cons ke dt)
  obtain k e where ke: "ke = (k, e)" by (cases ke)
  show ?case
  proof (cases "k = ''__cat''")
    case True
    with Cons.prems ke have run: "vsRest_tables srt dt q l m h = Inr (h', ts)" by simp
    from Cons.IH[OF run] True ke show ?thesis by (cases e) auto
  next
    case False
    with Cons.prems ke obtain r ts' where
      e: "e = Frame r"
      and run: "vsRest_tables srt dt q l m (insert_if_absent r 0 ''clusterName'' k h) = Inr (h', ts')"
      by (auto split: entry.splits sum.splits)
    from Cons.IH[OF run] e ke False show ?thesis
      by (auto simp: insert_if_absent_def)
  qed
qed

lemma vsRest_tables_keeps:
  assumes "vsRest_tables srt dt q l m h = Inr (h', ts)"
    and "distinct (frames_of dt)"
    and "labelled ''clusterName'' Some h dt"
  shows "labelled ''clusterName'' Some h' dt"
  using assms
proof (induction dt arbitrary: h ts)
  case Nil
  then show ?case by simp
next
  case (Cons ke dt)
  obtain k e where ke: "ke = (k, e)" by (cases ke)
  show ?case
  proof (cases "k = ''__cat''")
    case True
    with Cons.prems ke have run: "vsRest_tables srt dt q l m h = Inr (h', ts)"
      and d: "distinct (frames_of dt)" and lb: "labelled ''clusterName'' Some h dt"
      by (cases e; simp)+
    from Cons.IH[OF run d lb] True ke show ?thesis by (cases e) auto
  next
    case False
    from False Cons.prems(1) ke obtain r ts' where
      e: "e = Frame r"
      and run: "vsRest_tables srt dt q l m (insert_if_absent r 0 ''clusterName'' k h) = Inr (h', ts')"
      by (auto split: entry.splits sum.splits)
    from Cons.prems(2,3) ke e False have d: "distinct (frames_of dt)"
      and notin: "r \<notin> set (frames_of dt)"
      and lb: "labelled ''clusterName'' Some h dt"
      and here: "''clusterName'' \<notin> set (columns (dfs h r)) \<or>
                 list_all (\<lambda>rw. labels rw ''clusterName'' = Some k) (rows (dfs h r))"
      by auto
    from notin have "\<forall>r'\<in>set (frames_of dt). dfs (insert_if_absent r 0 ''clusterName'' k h) r' = dfs h r'"
      by (metis insert_if_absent_other)
    from labelled_frame_eq[OF lb this]
    have lb1: "labelled ''clusterName'' Some (insert_if_absent r 0 ''clusterName'' k h) dt" .
    from vsRest_tables_frame[OF run] notin
    have "dfs h' r = dfs (insert_if_absent r 0 ''clusterName'' k h) r" by simp
    with insert_if_absent_labelled[OF here, of 0]
    have "list_all (\<lambda>rw. labels rw ''clusterName'' = Some k) (rows (dfs h' r))" by simp
    with Cons.IH[OF run d lb1] ke e show ?thesis by simp
  qed
qed

lemma getMarker_keeps:
  assumes "map_of (uns (ads h adata)) key = Some dt"
    and "getMarker srt adata key q l m dc h = Inr (h', res)"
    and "vsRest_result h dt"
  shows "map_of (uns (ads h' adata)) key = Some dt \<and> vsRest_result h' dt"
proof -
  from assms(3) have tag: "map_of dt ''__cat'' = Some (Cat ''vsRest'')"
    and d: "distinct (frames_of dt)" and lb: "labelled ''clusterName'' Some h dt"
    by (simp_all add: vsRest_result_def)
  from getMarker_vsRest_core[OF assms(1) tag assms(2)] obtain ts where
    run: "vsRest_tables srt dt q l m h = Inr (h', ts)"
    by blast
  from vsRest_tables_frame[OF run] assms(1) vsRest_tables_keeps[OF run d lb] tag d
  show ?thesis by (simp add: vsRest_result_def)
qed







section \<open>The marker extractor on a pairwise mapping\<close>

lemma pairWise_tables_names:
  assumes "pairWise_tables srt dt q l m h = Inr (h', ts, ns)"
  shows "ns = bg_names dt \<and> length ts = length (group_keys_of dt)"
  using assms
proof (induction dt arbitrary: h ts ns)
  case Nil
  then show ?case by (simp add: bg_names_def group_keys_of_def)
next
  case (Cons ke dt)
  obtain k e where ke: "ke = (k, e)" by (cases ke)
  show ?case
  proof (cases "k = ''__cat''")
    case True
    with Cons ke show ?thesis by (simp add: bg_names_def group_keys_of_def)
  next
    case False
    with Cons.prems ke obtain bg h1 ts' ns' where
      bg: "bgCluster_of k = Some bg"
      and run: "pairWise_tables srt dt q l m h1 = Inr (h', ts', ns')"
      and ns: "ns = bg # ns'" and ts: "length ts = Suc (length ts')"
      by (auto split: option.splits entry.splits sum.splits)
    from Cons.IH[OF run] ns ts bg ke False show ?thesis
      by (simp add: bg_names_def group_keys_of_def)
  qed
qed

lemma group_keys_set:
  "((tc, g) \<in> set (group_keys rs)) = (group_of rs tc g \<noteq> [])"
  by (auto simp: group_keys_def group_of_def filter_empty_conv image_iff)

lemma aggregate_retained:
  "(\<exists>a\<in>set (filter (\<lambda>a. R \<le> int (counts a)) (aggregate rs)).
       m_testedCluster a = tc \<and> m_gene a = g) =
   (0 < length (group_of rs tc g) \<and> R \<le> int (length (group_of rs tc g)))"
proof -
  have "(\<exists>a\<in>set (filter (\<lambda>a. R \<le> int (counts a)) (aggregate rs)).
       m_testedCluster a = tc \<and> m_gene a = g) =
     ((tc, g) \<in> set (group_keys rs) \<and> R \<le> int (length (group_of rs tc g)))"
    by (auto simp: aggregate_def image_iff)
  then show ?thesis by (simp add: group_keys_set)
qed

lemma aggregate_counts:
  "\<forall>a\<in>set (aggregate rs). counts a = length (group_of rs (m_testedCluster a) (m_gene a))"
  by (auto simp: aggregate_def)

lemma group_of_append: "group_of (xs @ ys) tc g = group_of xs tc g @ group_of ys tc g"
  by (simp add: group_of_def)

lemma relabel_True: "relabel c v True = (\<lambda>rw. rw)"
  by (rule ext) (simp add: relabel_def)

lemma insert_if_absent_rows:
  "rows (dfs (insert_if_absent r loc c v h) r) =
     map (relabel c v (c \<in> set (columns (dfs h r)))) (rows (dfs h r))"
  by (cases "c \<in> set (columns (dfs h r))")
     (simp_all add: insert_if_absent_def insert_col_def relabel_True relabel_def)

lemma relabel_fields:
  "gene (relabel c v p rw) = gene rw"
  "within_cutoffs q l m (relabel c v p rw) = within_cutoffs q l m rw"
  "c' \<noteq> c \<Longrightarrow> labels (relabel c v p rw) c' = labels rw c'"
  "labels (relabel c v False rw) c = Some v"
  "relabel c v True rw = rw"
  by (simp_all add: relabel_def within_cutoffs_def)

lemma labelled_tables_count:
  assumes srt: "sorts srt"
    and here: "''testedCluster'' \<notin> set (columns (dfs h r)) \<or>
                 list_all (\<lambda>rw. labels rw ''testedCluster'' = Some tk) (rows (dfs h r))"
  shows "length (group_of (rows (twoSample srt
            (dfs (insert_if_absent r 1 ''bgCluster'' bg
               (insert_if_absent r 0 ''testedCluster'' tk h)) r) q l m)) tc g) =
         (if tk = tc
          then length (filter (\<lambda>rw. gene rw = g \<and> within_cutoffs q l m rw) (rows (dfs h r)))
          else 0)"
proof -
  let ?h1 = "insert_if_absent r 0 ''testedCluster'' tk h"
  let ?h2 = "insert_if_absent r 1 ''bgCluster'' bg ?h1"
  let ?p1 = "''testedCluster'' \<in> set (columns (dfs h r))"
  let ?p2 = "''bgCluster'' \<in> set (columns (dfs ?h1 r))"
  let ?f = "\<lambda>rw. relabel ''bgCluster'' bg ?p2 (relabel ''testedCluster'' tk ?p1 rw)"
  have rows2: "rows (dfs ?h2 r) = map ?f (rows (dfs h r))"
    by (simp only: insert_if_absent_rows map_map comp_def)
  have lab: "labels (?f rw) ''testedCluster'' = Some tk" if "rw \<in> set (rows (dfs h r))" for rw
  proof (cases ?p1)
    case True
    with here that have "labels rw ''testedCluster'' = Some tk" by (auto simp: list_all_iff)
    with True show ?thesis by (simp add: relabel_fields)
  next
    case False
    then show ?thesis by (simp add: relabel_fields)
  qed
  have "length (group_of (rows (twoSample srt (dfs ?h2 r) q l m)) tc g)
          = length (filter (\<lambda>rw. labels rw ''testedCluster'' = Some tc \<and> gene rw = g)
              (filter (within_cutoffs q l m) (map ?f (rows (dfs h r)))))"
    unfolding group_of_def twoSample_def rows2 by (simp add: sorts_filter[OF srt])
  also have "\<dots> = length (filter (\<lambda>rw. labels (?f rw) ''testedCluster'' = Some tc \<and>
                          gene rw = g \<and> within_cutoffs q l m rw) (rows (dfs h r)))"
    by (simp add: filter_map comp_def relabel_fields conj_commute conj_left_commute)
  also have "\<dots> = length (filter (\<lambda>rw. tk = tc \<and> gene rw = g \<and> within_cutoffs q l m rw)
                        (rows (dfs h r)))"
    by (rule arg_cong[where f = length], rule filter_cong) (simp_all add: lab)
  finally show ?thesis by (cases "tk = tc") simp_all
qed


lemma clearances_frame_eq:
  assumes "\<forall>r\<in>set (frames_of dt). dfs h1 r = dfs h r"
  shows "clearances h1 dt q l m tc g = clearances h dt q l m tc g"
  using assms by (induction h dt q l m tc g rule: clearances.induct) auto

lemma pairWise_tables_count:
  assumes "pairWise_tables srt dt q l m h = Inr (h', ts, ns)"
    and "distinct (frames_of dt)"
    and "labelled ''testedCluster'' testedCluster_of h dt"
    and srt: "sorts srt"
  shows "length (group_of (concat (map rows ts)) tc g) = clearances h dt q l m tc g"
  using assms(1-3)
proof (induction dt arbitrary: h ts ns)
  case Nil
  then show ?case by (simp add: group_of_def)
next
  case (Cons ke dt)
  obtain k e where ke: "ke = (k, e)" by (cases ke)
  show ?case
  proof (cases "k = ''__cat''")
    case True
    from Cons.prems ke True have run: "pairWise_tables srt dt q l m h = Inr (h', ts, ns)"
      by simp
    from Cons.prems ke True have d: "distinct (frames_of dt)"
      and lb: "labelled ''testedCluster'' testedCluster_of h dt"
      by (cases e; simp)+
    from Cons.IH[OF run d lb] ke True show ?thesis by (cases e) simp_all
  next
    case False
    with Cons.prems(1) ke obtain tk bg r ts' ns' where
      tk: "testedCluster_of k = Some tk" and bg: "bgCluster_of k = Some bg"
      and e: "e = Frame r"
      and run: "pairWise_tables srt dt q l m
                  (insert_if_absent r 1 ''bgCluster'' bg
                     (insert_if_absent r 0 ''testedCluster'' tk h)) = Inr (h', ts', ns')"
      and ts: "ts = twoSample srt (dfs (insert_if_absent r 1 ''bgCluster'' bg
                                 (insert_if_absent r 0 ''testedCluster'' tk h)) r) q l m # ts'"
      by (auto split: option.splits entry.splits sum.splits)
    let ?h2 = "insert_if_absent r 1 ''bgCluster'' bg (insert_if_absent r 0 ''testedCluster'' tk h)"
    from Cons.prems ke e False have notin: "r \<notin> set (frames_of dt)"
      and d: "distinct (frames_of dt)"
      and here: "''testedCluster'' \<notin> set (columns (dfs h r)) \<or>
                 list_all (\<lambda>rw. labels rw ''testedCluster'' = Some tk) (rows (dfs h r))"
      and lb: "labelled ''testedCluster'' testedCluster_of h dt"
      using tk by simp_all
    from notin have same: "\<forall>r'\<in>set (frames_of dt). dfs ?h2 r' = dfs h r'"
      by (metis insert_if_absent_other)
    from labelled_frame_eq[OF lb same]
    have lb2: "labelled ''testedCluster'' testedCluster_of ?h2 dt" .
    have rest: "length (group_of (concat (map rows ts')) tc g) = clearances h dt q l m tc g"
      using Cons.IH[OF run d lb2] clearances_frame_eq[OF same] by simp
    have "length (group_of (concat (map rows ts)) tc g) =
            length (group_of (rows (twoSample srt (dfs ?h2 r) q l m)) tc g) +
            length (group_of (concat (map rows ts')) tc g)"
      by (simp only: ts list.map concat.simps group_of_append length_append)
    also have "\<dots> = (if tk = tc
                      then length (filter (\<lambda>rw. gene rw = g \<and> within_cutoffs q l m rw)
                                     (rows (dfs h r)))
                      else 0) + clearances h dt q l m tc g"
      by (simp only: labelled_tables_count[OF srt here] rest)
    finally show ?thesis using ke e False tk by simp
  qed
qed

lemma getMarker_pairWise_core:
  assumes "map_of (uns (ads h adata)) key = Some dt"
    and "map_of dt ''__cat'' = Some (Cat ''pairWise'')"
    and "getMarker srt adata key q l m dc h = Inr (h', res)"
  shows "\<exists>h1 (ts::df list) (t::df). pairWise_tables srt dt q l m h = Inr (h1, ts, bg_names dt) \<and>
           rows t = concat (map rows ts) \<and>
           res = Merged (filter (\<lambda>a. resolve_counts (bg_names dt) dc \<le> int (counts a))
                           (aggregate (rows t)))"
proof -
  from assms have pm: "pairWise_markers srt dt q l m dc h = Inr (h', res)"
    by (simp add: getMarker_def)
  then obtain h1 ts ns t where run: "pairWise_tables srt dt q l m h = Inr (h1, ts, ns)"
    and cc: "concat_df ts = Inr t"
    and res: "res = Merged (filter (\<lambda>a. resolve_counts ns dc \<le> int (counts a))
                              (aggregate (rows t)))"
    by (auto simp: pairWise_markers_def split: sum.splits)
  from pairWise_tables_names[OF run] have ns: "ns = bg_names dt" by simp
  from cc have "rows t = concat (map rows ts)"
    by (auto simp: concat_df_def split: if_splits)
  with run res ns have
    "pairWise_tables srt dt q l m h = Inr (h1, ts, bg_names dt) \<and>
     rows t = concat (map rows ts) \<and>
     res = Merged (filter (\<lambda>a. resolve_counts (bg_names dt) dc \<le> int (counts a))
                     (aggregate (rows t)))"
    by simp
  then show ?thesis
    by (intro exI[where x = h1] exI[where x = ts] exI[where x = t])
qed

lemma heap_pairWise_eq:
  "heap_pairWise =
     \<lparr>ads = (\<lambda>_. \<lparr>X = Dense [], layers = [], obs = [], var = [], uns = []\<rparr>)
              (0 := \<lparr>X = Dense [[4], [1], [1], [8]], layers = [],
                       obs = [(''group'', [S ''A'', S ''B'', S ''C'', S ''D''])], var = [''g1''],
                       uns = [(''diffxpyPairWise_group'', four_groups)]\<rparr>),
      next_ad = 1,
      dfs = (\<lambda>_. \<lparr>columns = [], rows = []\<rparr>)
              (0 := \<lparr>columns = [],
                       rows = [\<lparr>labels = Map.empty, gene = ''g1'', qval = 0, log2fc = 3,
                                  mean = 5, coef_mle = 3\<rparr>]\<rparr>,
               1 := \<lparr>columns = [],
                       rows = [\<lparr>labels = Map.empty, gene = ''g1'', qval = 0, log2fc = 3,
                                  mean = 5, coef_mle = 3\<rparr>]\<rparr>,
               2 := \<lparr>columns = [],
                       rows = [\<lparr>labels = Map.empty, gene = ''g1'', qval = 0, log2fc = - 4,
                                  mean = 12, coef_mle = - 4\<rparr>]\<rparr>,
               3 := \<lparr>columns = [],
                       rows = [\<lparr>labels = Map.empty, gene = ''g1'', qval = 0, log2fc = 0,
                                  mean = 2, coef_mle = 0\<rparr>]\<rparr>,
               4 := \<lparr>columns = [],
                       rows = [\<lparr>labels = Map.empty, gene = ''g1'', qval = 0, log2fc = - 7,
                                  mean = 9, coef_mle = - 7\<rparr>]\<rparr>,
               5 := \<lparr>columns = [],
                       rows = [\<lparr>labels = Map.empty, gene = ''g1'', qval = 0, log2fc = - 7,
                                  mean = 9, coef_mle = - 7\<rparr>]\<rparr>,
               6 := \<lparr>columns = [],
                       rows = [\<lparr>labels = Map.empty, gene = ''g1'', qval = 0, log2fc = - 3,
                                  mean = 5, coef_mle = 3\<rparr>]\<rparr>,
               7 := \<lparr>columns = [],
                       rows = [\<lparr>labels = Map.empty, gene = ''g1'', qval = 0, log2fc = - 3,
                                  mean = 5, coef_mle = 3\<rparr>]\<rparr>,
               8 := \<lparr>columns = [],
                       rows = [\<lparr>labels = Map.empty, gene = ''g1'', qval = 0, log2fc = 0,
                                  mean = 2, coef_mle = 0\<rparr>]\<rparr>,
               9 := \<lparr>columns = [],
                       rows = [\<lparr>labels = Map.empty, gene = ''g1'', qval = 0, log2fc = 4,
                                  mean = 12, coef_mle = - 4\<rparr>]\<rparr>,
               10 := \<lparr>columns = [],
                       rows = [\<lparr>labels = Map.empty, gene = ''g1'', qval = 0, log2fc = 7,
                                  mean = 9, coef_mle = - 7\<rparr>]\<rparr>,
               11 := \<lparr>columns = [],
                       rows = [\<lparr>labels = Map.empty, gene = ''g1'', qval = 0, log2fc = 7,
                                  mean = 9, coef_mle = - 7\<rparr>]\<rparr>),
      next_df = 12\<rparr>"
  by (simp add: heap_pairWise_def heap_four_def ad_four_def four_groups_def dispatch_defs
      adapter_defs example_defs Let_def upt_rec toy_wald_def class_sum_def stats_row_def
      eval_nat_numeral)

lemma heap_pairWise_mapping:
  "map_of (uns (ads heap_pairWise 0)) ''diffxpyPairWise_group'' = Some four_groups"
  by (simp add: heap_pairWise_eq)

lemma heap_pairWise_result: "pairWise_result heap_pairWise four_groups"
  by (simp add: pairWise_result_def heap_pairWise_eq four_groups_def)

lemma four_groups_names:
  "bg_names four_groups =
     [''B'', ''C'', ''D'', ''C'', ''D'', ''D'', ''A'', ''A'', ''B'', ''A'', ''B'', ''C'']"
  by (simp add: bg_names_def four_groups_def group_keys_of_def)

lemma heap_pairWise_markers:
  "\<exists>h'. getMarker stable_sort 0 ''diffxpyPairWise_group'' (1 / 20) (1 / 2) (1 / 2) (- 1) heap_pairWise =
     Inr (h', Merged [\<lparr>m_testedCluster = ''D'', m_gene = ''g1'', counts = 3,
                        m_bgCluster = [Some ''A'', Some ''B'', Some ''C''],
                        m_qval = [0, 0, 0], m_log2fc = [4, 7, 7], m_mean = [12, 9, 9],
                        m_coef_mle = [- 4, - 7, - 7]\<rparr>])"
  by (simp add: heap_pairWise_eq four_groups_def getMarker_def pairWise_markers_def
      insert_if_absent_def insert_col_def twoSample_def stable_sort_def within_cutoffs_def
      concat_df_def
      aggregate_def group_keys_def group_of_def resolve_counts_def card_insert_if)

lemma heap_pairWise_clearances:
  "clearances heap_pairWise four_groups (1 / 20) (1 / 2) (1 / 2) ''A'' ''g1'' = 2"
  "clearances heap_pairWise four_groups (1 / 20) (1 / 2) (1 / 2) ''D'' ''g1'' = 3"
  by (simp_all add: heap_pairWise_eq four_groups_def within_cutoffs_def)


lemma four_groups_card: "card (set (bg_names four_groups)) = 4"
  by (simp add: four_groups_names card_insert_if)

text \<open>
  C3, as stated, fails. \<^verbatim>\<open>pairWise\<close> on the four cells stores twelve tables, three per tested
  group. The gene g1 clears the cutoffs 0.05, 0.5 and 0.5 in the tables of A against B and of
  A against C, not in the table of A against D: two of the three backgrounds of A. With
  \<^verbatim>\<open>detectedCounts = -1\<close> \<^verbatim>\<open>getMarker\<close> returns the single pair (D, g1), with count 3: the
  names collected in \<^verbatim>\<open>ls_compName\<close> are the four groups, each being the background of the
  other three, so the count is resolved to 4 - 1 = 3 and the pair (A, g1) is dropped. Every
  table has one row, so the sort has nothing to reorder.
\<close>

theorem getMarker_clears_two_of_three:
  "map_of (uns (ads heap_pairWise 0)) ''diffxpyPairWise_group'' = Some four_groups \<and>
   map fst (filter (\<lambda>(k, e). case e of
                       Frame r \<Rightarrow> list_ex (\<lambda>rw. gene rw = ''g1'' \<and>
                                                within_cutoffs (1 / 20) (1 / 2) (1 / 2) rw)
                                    (rows (dfs heap_pairWise r))
                     | Cat s \<Rightarrow> False) four_groups) =
     [''test_A_bg_B'', ''test_A_bg_C'', ''test_D_bg_A'', ''test_D_bg_B'', ''test_D_bg_C''] \<and>
   (\<exists>h' rs. getMarker stable_sort 0 ''diffxpyPairWise_group'' (1 / 20) (1 / 2) (1 / 2) (- 1) heap_pairWise =
              Inr (h', Merged rs) \<and>
            map (\<lambda>a. (m_testedCluster a, m_gene a, counts a)) rs = [(''D'', ''g1'', 3)])"
proof -
  have a: "map fst (filter (\<lambda>(k, e). case e of
                       Frame r \<Rightarrow> list_ex (\<lambda>rw. gene rw = ''g1'' \<and>
                                                within_cutoffs (1 / 20) (1 / 2) (1 / 2) rw)
                                    (rows (dfs heap_pairWise r))
                     | Cat s \<Rightarrow> False) four_groups) =
     [''test_A_bg_B'', ''test_A_bg_C'', ''test_D_bg_A'', ''test_D_bg_B'', ''test_D_bg_C'']"
    by (simp add: heap_pairWise_eq four_groups_def within_cutoffs_def)
  from heap_pairWise_markers obtain h' where
    gm: "getMarker stable_sort 0 ''diffxpyPairWise_group'' (1 / 20) (1 / 2) (1 / 2) (- 1) heap_pairWise =
           Inr (h', Merged [\<lparr>m_testedCluster = ''D'', m_gene = ''g1'', counts = 3,
                        m_bgCluster = [Some ''A'', Some ''B'', Some ''C''],
                        m_qval = [0, 0, 0], m_log2fc = [4, 7, 7], m_mean = [12, 9, 9],
                        m_coef_mle = [- 4, - 7, - 7]\<rparr>])"
    by auto
  have b: "\<exists>h' rs. getMarker stable_sort 0 ''diffxpyPairWise_group'' (1 / 20) (1 / 2) (1 / 2) (- 1) heap_pairWise =
              Inr (h', Merged rs) \<and>
            map (\<lambda>a. (m_testedCluster a, m_gene a, counts a)) rs = [(''D'', ''g1'', 3)]"
    by (rule exI[where x = h'],
        rule exI[where x = "[\<lparr>m_testedCluster = ''D'', m_gene = ''g1'', counts = 3,
                        m_bgCluster = [Some ''A'', Some ''B'', Some ''C''],
                        m_qval = [0, 0, 0], m_log2fc = [4, 7, 7], m_mean = [12, 9, 9],
                        m_coef_mle = [- 4, - 7, - 7]\<rparr>]"])
       (simp add: gm)
  from heap_pairWise_mapping a b show ?thesis by simp
qed

text \<open>
  C3, amended. Let a collection hold a \<^verbatim>\<open>pairWise\<close>-tagged mapping whose tables are different
  objects, each without the column \<^verbatim>\<open>testedCluster\<close> or carrying in it the tested group of its
  key, and let \<^verbatim>\<open>getMarker\<close> return on it. The result is the grouped table. A non-positive
  \<^verbatim>\<open>detectedCounts\<close> is resolved to the number of distinct background names over the whole
  mapping plus \<^verbatim>\<open>detectedCounts\<close>, and a positive one is taken as it is. The pairs (tested
  group, gene) of the result are exactly those with at least one row within the cutoffs and
  with at least the resolved number of such rows over the tables of the tested group, and
  \<^verbatim>\<open>counts\<close> is that number of rows. With \<^verbatim>\<open>detectedCounts = -1\<close> and four distinct background
  names, the four groups of a mapping over four groups, the resolved count is 3: a pair is
  retained exactly when it clears the cutoffs in at least three rows, which for one row per
  gene and table means against all three backgrounds of its tested group. This holds for
  every sort that returns the rows it is given in descending order of the coefficient.
\<close>

theorem getMarker_pairWise:
  assumes "map_of (uns (ads h adata)) key = Some dt"
    and "pairWise_result h dt"
    and "getMarker srt adata key q l m dc h = Inr (h', res)"
    and srt: "sorts srt"
  shows "\<exists>rs. res = Merged rs \<and>
           (\<forall>tc g. (\<exists>a\<in>set rs. m_testedCluster a = tc \<and> m_gene a = g) =
                   (0 < clearances h dt q l m tc g \<and>
                    (if dc \<le> 0 then int (card (set (bg_names dt))) + dc else dc)
                      \<le> int (clearances h dt q l m tc g))) \<and>
           (\<forall>a\<in>set rs. counts a = clearances h dt q l m (m_testedCluster a) (m_gene a)) \<and>
           (dc = - 1 \<and> card (set (bg_names dt)) = 4 \<longrightarrow>
              (\<forall>tc g. (\<exists>a\<in>set rs. m_testedCluster a = tc \<and> m_gene a = g) =
                      (3 \<le> clearances h dt q l m tc g)))"
proof -
  from assms(2) have tag: "map_of dt ''__cat'' = Some (Cat ''pairWise'')"
    and d: "distinct (frames_of dt)"
    and lb: "labelled ''testedCluster'' testedCluster_of h dt"
    by (simp_all add: pairWise_result_def)
  from getMarker_pairWise_core[OF assms(1) tag assms(3)]
  obtain h1 and ts :: "df list" and t :: df where
    run: "pairWise_tables srt dt q l m h = Inr (h1, ts, bg_names dt)"
    and rt: "rows t = concat (map rows ts)"
    and res: "res = Merged (filter (\<lambda>a. resolve_counts (bg_names dt) dc \<le> int (counts a))
                              (aggregate (rows t)))"
    by blast
  let ?rs = "filter (\<lambda>a. resolve_counts (bg_names dt) dc \<le> int (counts a)) (aggregate (rows t))"
  have cnt: "length (group_of (rows t) tc g) = clearances h dt q l m tc g" for tc g
    using pairWise_tables_count[OF run d lb srt, of tc g] by (simp only: rt)
  have a: "(\<exists>a\<in>set ?rs. m_testedCluster a = tc \<and> m_gene a = g) =
             (0 < clearances h dt q l m tc g \<and>
              (if dc \<le> 0 then int (card (set (bg_names dt))) + dc else dc)
                \<le> int (clearances h dt q l m tc g))" for tc g
    using aggregate_retained[of "resolve_counts (bg_names dt) dc" "rows t" tc g]
    by (simp only: cnt resolve_counts_def)
  have b: "\<forall>a\<in>set ?rs. counts a = clearances h dt q l m (m_testedCluster a) (m_gene a)"
  proof
    fix x assume "x \<in> set ?rs"
    then have "x \<in> set (aggregate (rows t))" by simp
    with aggregate_counts[of "rows t"]
    have "counts x = length (group_of (rows t) (m_testedCluster x) (m_gene x))" by (rule bspec)
    then show "counts x = clearances h dt q l m (m_testedCluster x) (m_gene x)"
      by (simp only: cnt)
  qed
  have c: "dc = - 1 \<and> card (set (bg_names dt)) = 4 \<longrightarrow>
             (\<forall>tc g. (\<exists>a\<in>set ?rs. m_testedCluster a = tc \<and> m_gene a = g) =
                     (3 \<le> clearances h dt q l m tc g))"
  proof (intro impI allI)
    fix tc g
    assume four: "dc = - 1 \<and> card (set (bg_names dt)) = 4"
    then have th: "(if dc \<le> 0 then int (card (set (bg_names dt))) + dc else dc) = 3"
      by simp
    have "(0 < clearances h dt q l m tc g \<and> 3 \<le> int (clearances h dt q l m tc g)) =
          (3 \<le> clearances h dt q l m tc g)"
      by arith
    then show "(\<exists>a\<in>set ?rs. m_testedCluster a = tc \<and> m_gene a = g) =
               (3 \<le> clearances h dt q l m tc g)"
      by (simp only: a th)
  qed
  have all: "res = Merged ?rs \<and>
           (\<forall>tc g. (\<exists>a\<in>set ?rs. m_testedCluster a = tc \<and> m_gene a = g) =
                   (0 < clearances h dt q l m tc g \<and>
                    (if dc \<le> 0 then int (card (set (bg_names dt))) + dc else dc)
                      \<le> int (clearances h dt q l m tc g))) \<and>
           (\<forall>a\<in>set ?rs. counts a = clearances h dt q l m (m_testedCluster a) (m_gene a)) \<and>
           (dc = - 1 \<and> card (set (bg_names dt)) = 4 \<longrightarrow>
              (\<forall>tc g. (\<exists>a\<in>set ?rs. m_testedCluster a = tc \<and> m_gene a = g) =
                      (3 \<le> clearances h dt q l m tc g)))"
  proof (intro conjI)
    show "res = Merged ?rs" by (rule res)
    show "\<forall>tc g. (\<exists>a\<in>set ?rs. m_testedCluster a = tc \<and> m_gene a = g) =
                   (0 < clearances h dt q l m tc g \<and>
                    (if dc \<le> 0 then int (card (set (bg_names dt))) + dc else dc)
                      \<le> int (clearances h dt q l m tc g))"
      by (intro allI) (rule a)
    show "\<forall>a\<in>set ?rs. counts a = clearances h dt q l m (m_testedCluster a) (m_gene a)"
      by (rule b)
    show "dc = - 1 \<and> card (set (bg_names dt)) = 4 \<longrightarrow>
              (\<forall>tc g. (\<exists>a\<in>set ?rs. m_testedCluster a = tc \<and> m_gene a = g) =
                      (3 \<le> clearances h dt q l m tc g))"
      by (rule c)
  qed
  show ?thesis by (rule exI[where x = ?rs], rule all)
qed

theorem getMarker_pairWise_witness:
  "\<exists>h' rs.
     map_of (uns (ads heap_pairWise 0)) ''diffxpyPairWise_group'' = Some four_groups \<and>
     pairWise_result heap_pairWise four_groups \<and>
     getMarker stable_sort 0 ''diffxpyPairWise_group'' (1 / 20) (1 / 2) (1 / 2) (- 1) heap_pairWise =
       Inr (h', Merged rs) \<and>
     card (set (bg_names four_groups)) = 4 \<and>
     clearances heap_pairWise four_groups (1 / 20) (1 / 2) (1 / 2) ''A'' ''g1'' = 2 \<and>
     clearances heap_pairWise four_groups (1 / 20) (1 / 2) (1 / 2) ''D'' ''g1'' = 3 \<and>
     \<not> (\<exists>a\<in>set rs. m_testedCluster a = ''A'' \<and> m_gene a = ''g1'') \<and>
     (\<exists>a\<in>set rs. m_testedCluster a = ''D'' \<and> m_gene a = ''g1'')"
proof -
  let ?rs = "[\<lparr>m_testedCluster = ''D'', m_gene = ''g1'', counts = 3,
                        m_bgCluster = [Some ''A'', Some ''B'', Some ''C''],
                        m_qval = [0, 0, 0], m_log2fc = [4, 7, 7], m_mean = [12, 9, 9],
                        m_coef_mle = [- 4, - 7, - 7]\<rparr>]"
  from heap_pairWise_markers obtain h' where
    gm: "getMarker stable_sort 0 ''diffxpyPairWise_group'' (1 / 20) (1 / 2) (1 / 2) (- 1) heap_pairWise =
           Inr (h', Merged ?rs)"
    by auto
  from getMarker_pairWise[OF heap_pairWise_mapping heap_pairWise_result gm sorts_stable_sort]
  obtain rs where
    r: "Merged ?rs = Merged rs \<and>
        (\<forall>tc g. (\<exists>a\<in>set rs. m_testedCluster a = tc \<and> m_gene a = g) =
                (0 < clearances heap_pairWise four_groups (1 / 20) (1 / 2) (1 / 2) tc g \<and>
                 (if (- 1::int) \<le> 0 then int (card (set (bg_names four_groups))) + - 1 else - 1)
                   \<le> int (clearances heap_pairWise four_groups (1 / 20) (1 / 2) (1 / 2) tc g))) \<and>
        (\<forall>a\<in>set rs. counts a =
            clearances heap_pairWise four_groups (1 / 20) (1 / 2) (1 / 2)
              (m_testedCluster a) (m_gene a)) \<and>
        ((- 1::int) = - 1 \<and> card (set (bg_names four_groups)) = 4 \<longrightarrow>
           (\<forall>tc g. (\<exists>a\<in>set rs. m_testedCluster a = tc \<and> m_gene a = g) =
                   (3 \<le> clearances heap_pairWise four_groups (1 / 20) (1 / 2) (1 / 2) tc g)))"
    by (rule exE)
  from r have eq: "rs = ?rs" by simp
  from r have "(- 1::int) = - 1 \<and> card (set (bg_names four_groups)) = 4 \<longrightarrow>
           (\<forall>tc g. (\<exists>a\<in>set rs. m_testedCluster a = tc \<and> m_gene a = g) =
                   (3 \<le> clearances heap_pairWise four_groups (1 / 20) (1 / 2) (1 / 2) tc g))"
    by (elim conjE)
  with four_groups_card
  have "\<forall>tc g. (\<exists>a\<in>set rs. m_testedCluster a = tc \<and> m_gene a = g) =
                (3 \<le> clearances heap_pairWise four_groups (1 / 20) (1 / 2) (1 / 2) tc g)"
    by (elim impE) (intro conjI, rule refl, assumption+)
  then have ret: "(\<exists>a\<in>set rs. m_testedCluster a = tc \<and> m_gene a = g) =
             (3 \<le> clearances heap_pairWise four_groups (1 / 20) (1 / 2) (1 / 2) tc g)" for tc g
    by (elim allE)
  have "\<not> (\<exists>a\<in>set rs. m_testedCluster a = ''A'' \<and> m_gene a = ''g1'')"
    and "\<exists>a\<in>set rs. m_testedCluster a = ''D'' \<and> m_gene a = ''g1''"
    by (simp_all only: ret heap_pairWise_clearances)
  with heap_pairWise_mapping heap_pairWise_result gm four_groups_card heap_pairWise_clearances eq
  show ?thesis
    by (intro exI[where x = h'] exI[where x = rs]) simp
qed

end
